theory Spec2Isabelle
  imports Complex_Main
begin

section \<open>The gnuplot session controller of gnuplot.cpp\<close>

text \<open>
  A shallow embedding of \<^verbatim>\<open>src/gnuplot.cpp\<close>. Conventions of the model:
  \<^item> a \<^verbatim>\<open>double\<close> is a \<^typ>\<open>real\<close>: comparisons and the increments of the
    histogram counters are exact (no NaN, no rounding);
  \<^item> a C string is a \<^typ>\<open>string\<close>, a \<^verbatim>\<open>char *\<close> that may be \<^verbatim>\<open>NULL\<close> is a
    \<^typ>\<open>string option\<close>; the fixed sizes of the character buffers are not tracked;
  \<^item> the counters \<^verbatim>\<open>nplots\<close> and \<^verbatim>\<open>ntmp\<close> are \<^typ>\<open>int\<close>: a session is
    taken to stay below the \<^verbatim>\<open>INT_MAX\<close> plots at which \<^verbatim>\<open>nplots++\<close> would be
    undefined;
  \<^item> the header \<^verbatim>\<open>gnuplot.h\<close> is not part of the sources: the constant
    \<^verbatim>\<open>GP_MAX_TMP_FILES\<close>, the directory \<^verbatim>\<open>P_tmpdir\<close> and the rendering of
    \<^verbatim>\<open>%g\<close> are fields of an environment record, together with what the host
    answers (\<^verbatim>\<open>getenv("PATH")\<close>, \<^verbatim>\<open>access(p, X_OK)\<close>);
  \<^item> undefined behaviour of the C++ (a null or dangling handle dereferenced, a read
    past the end of an array, \<^verbatim>\<open>NULL\<close> given to \<^verbatim>\<open>%s\<close>) is an error value;
  \<^item> what is printed on \<^verbatim>\<open>stderr\<close> is not recorded.
\<close>

datatype error = NullDeref | UseAfterFree | OutOfBounds | NullFormatArg

record env =
  PATH :: "string option"
  access_X_OK :: "string \<Rightarrow> bool"
  GP_MAX_TMP_FILES :: int
  P_tmpdir :: string
  fmt_g :: "real \<Rightarrow> string"

subsection \<open>The executable locator\<close>

text \<open>
  \<^verbatim>\<open>gnuplot_get_program_path\<close> works in one \<^verbatim>\<open>static char buf[]\<close> and returns
  either \<^verbatim>\<open>NULL\<close> or the address of that buffer. The model returns which of the
  two, and the contents of the buffer after the call.
\<close>

datatype path_ptr = NullPtr | BufPtr

text \<open>What a caller reads through a returned pointer, given the buffer as it is now.\<close>

fun read_ptr :: "path_ptr \<Rightarrow> string \<Rightarrow> string option" where
  "read_ptr NullPtr buf = None"
| "read_ptr BufPtr buf = Some buf"

text \<open>
  The loop over the segments of \<^verbatim>\<open>PATH\<close>, on the part of the variable that is
  still to be read (\<^verbatim>\<open>path + i\<close>); it returns the buffer at the exit of the loop:
  the candidate that was found, or the empty string.
\<close>

function scan_path :: "env \<Rightarrow> string \<Rightarrow> string \<Rightarrow> string" where
  "scan_path e pname rest =
     (if rest = [] then []
      else
        let seg = takeWhile (\<lambda>c. c \<noteq> CHR '':'') rest;
            cand = (if seg = [] then ''.'' else seg) @ ''/'' @ pname
        in if access_X_OK e cand then cand
           else scan_path e pname (tl (dropWhile (\<lambda>c. c \<noteq> CHR '':'') rest)))"
  by pat_completeness auto
termination
proof (relation "measure (\<lambda>(e, pname, rest). length rest)")
  show "wf (measure (\<lambda>(e, pname, rest). length rest))" by simp
next
  fix e :: env and pname rest :: string and seg cand :: string
  assume "rest \<noteq> []"
  have "length (dropWhile (\<lambda>c. c \<noteq> CHR '':'') rest) \<le> length rest"
    by (rule length_dropWhile_le)
  moreover have "length (tl (dropWhile (\<lambda>c. c \<noteq> CHR '':'') rest))
       = length (dropWhile (\<lambda>c. c \<noteq> CHR '':'') rest) - 1"
    by simp
  ultimately show "((e, pname, tl (dropWhile (\<lambda>c. c \<noteq> CHR '':'') rest)), (e, pname, rest))
      \<in> measure (\<lambda>(e, pname, rest). length rest)"
    using \<open>rest \<noteq> []\<close> by (cases rest) auto
qed

declare scan_path.simps [simp del]

text \<open>The final loop: cut the buffer at its last \<^verbatim>\<open>'/'\<close>.\<close>

definition truncate_name :: "string \<Rightarrow> string" where
  "truncate_name buf = rev (tl (dropWhile (\<lambda>c. c \<noteq> CHR ''/'') (rev buf)))"

definition gnuplot_get_program_path :: "env \<Rightarrow> string \<Rightarrow> string \<Rightarrow> path_ptr \<times> string" where
  "gnuplot_get_program_path e buf pname =
     (if access_X_OK e (''./'' @ pname) then (BufPtr, ''.'')
      else
        let b = (case PATH e of None \<Rightarrow> [] | Some path \<Rightarrow> scan_path e pname path)
        in if b = [] then (NullPtr, []) else (BufPtr, truncate_name b))"


subsection \<open>The histogram counters\<close>

text \<open>
  The arrays of \<^verbatim>\<open>gnuplot_plot_histogram\<close>: \<^verbatim>\<open>ordinate\<close> comes with its length
  \<^verbatim>\<open>nbins\<close> and is a list of that length; \<^verbatim>\<open>rawdata\<close> has no length of its own, and
  a read past its end is an error. \<^verbatim>\<open>bin\<close> is the local array of \<^verbatim>\<open>nbins\<close> counters.

  The body of the inner \<^verbatim>\<open>for\<close> loop, for the sample \<^verbatim>\<open>x = rawdata[j]\<close> and the
  interval \<^verbatim>\<open>i\<close>:
\<close>

definition bin_step :: "int \<Rightarrow> real list \<Rightarrow> real \<Rightarrow> real list \<Rightarrow> nat \<Rightarrow> real list" where
  "bin_step overflow ordinate x bin i =
     (let nbins = length ordinate in
      if overflow \<noteq> 0 then
        if x \<le> ordinate ! 0 then bin[0 := bin ! 0 + 1]
        else if x \<ge> ordinate ! (nbins - 1) then bin[nbins - 1 := bin ! (nbins - 1) + 1]
        else if x \<ge> ordinate ! i \<and> x < ordinate ! (i + 1) then bin[i := bin ! i + 1]
        else bin
      else
        if x \<ge> ordinate ! i \<and> x < ordinate ! (i + 1) then bin[i := bin ! i + 1]
        else bin)"

text \<open>
  The inner loop \<^verbatim>\<open>for (i=0; i<nbins-1; i++)\<close>, from \<^verbatim>\<open>i\<close> on. It runs only under
  the outer guard \<^verbatim>\<open>j<nbins\<close>, so \<^verbatim>\<open>nbins\<close> is at least 1 there and the unsigned
  \<^verbatim>\<open>nbins-1\<close> does not wrap: \<^verbatim>\<open>i < nbins-1\<close> is \<^verbatim>\<open>i + 1 < nbins\<close>.
\<close>

function scan_bins :: "int \<Rightarrow> real list \<Rightarrow> real \<Rightarrow> nat \<Rightarrow> real list \<Rightarrow> real list" where
  "scan_bins overflow ordinate x i bin =
     (if i + 1 < length ordinate
      then scan_bins overflow ordinate x (i + 1) (bin_step overflow ordinate x bin i)
      else bin)"
  by pat_completeness auto
termination
  by (relation "measure (\<lambda>(overflow, ordinate, x, i, bin). length ordinate - i)") auto

declare scan_bins.simps [simp del]

text \<open>The outer loop \<^verbatim>\<open>while ( j<nbins && rawdata[j] )\<close>, from \<^verbatim>\<open>j\<close> on.\<close>

function bin_samples :: "int \<Rightarrow> real list \<Rightarrow> real list \<Rightarrow> nat \<Rightarrow> real list \<Rightarrow> error + real list" where
  "bin_samples overflow ordinate rawdata j bin =
     (if j < length ordinate then
        if j < length rawdata then
          if rawdata ! j \<noteq> 0
          then bin_samples overflow ordinate rawdata (j + 1)
                 (scan_bins overflow ordinate (rawdata ! j) 0 bin)
          else Inr bin
        else Inl OutOfBounds
      else Inr bin)"
  by pat_completeness auto
termination
  by (relation "measure (\<lambda>(overflow, ordinate, rawdata, j, bin). length ordinate - j)") auto

declare bin_samples.simps [simp del]

text \<open>The counters the function hands to the plot: all bins zeroed, then the loop.\<close>

definition histogram_bins :: "int \<Rightarrow> real list \<Rightarrow> real list \<Rightarrow> error + real list" where
  "histogram_bins overflow ordinate rawdata =
     bin_samples overflow ordinate rawdata 0 (replicate (length ordinate) 0)"

subsection \<open>The session\<close>

text \<open>
  \<^verbatim>\<open>gnuplot_ctrl\<close> is declared in the missing header; its fields are the ones the
  source uses. \<^verbatim>\<open>to_delete\<close> is the array of file names, of which the first
  \<^verbatim>\<open>ntmp\<close> are the registry of staged files. The stream \<^verbatim>\<open>gnucmd\<close> is
  write-only: the text written to it is kept in the world.
\<close>

record gnuplot_ctrl =
  nplots :: int
  pstyle :: string
  to_delete :: "nat \<Rightarrow> string"
  ntmp :: int

text \<open>The member \<^verbatim>\<open>plot_ctrl\<close>: null, a live structure, or a pointer that was freed.\<close>

datatype handle = Null | Live gnuplot_ctrl | Freed

text \<open>
  The world of one \<^verbatim>\<open>GnuPlot\<close> object: its handle, the lines written to the
  engine, the temporary files (name to the chunks given to \<^verbatim>\<open>write\<close>, in order), and
  the static buffer of the locator.
\<close>

record world =
  plot_ctrl :: handle
  engine_in :: "string list"
  files :: "string \<Rightarrow> string list option"
  path_buf :: string

definition newline :: string where
  "newline = [CHR 0x0A]"

definition dquote :: string where
  "dquote = [CHR 0x22]"

text \<open>Dereferencing \<^verbatim>\<open>this->plot_ctrl\<close>.\<close>

definition with_ctrl :: "world \<Rightarrow> (gnuplot_ctrl \<Rightarrow> error + world) \<Rightarrow> error + world" where
  "with_ctrl w f =
     (case plot_ctrl w of Null \<Rightarrow> Inl NullDeref | Freed \<Rightarrow> Inl UseAfterFree | Live c \<Rightarrow> f c)"

text \<open>
  \<^verbatim>\<open>gnuplot_init\<close>: \<^verbatim>\<open>junk\<close> is what \<^verbatim>\<open>malloc\<close> returns (only \<^verbatim>\<open>nplots\<close> and
  \<^verbatim>\<open>ntmp\<close> are initialised), \<^verbatim>\<open>popen_ok\<close> whether \<^verbatim>\<open>popen\<close> succeeds.
\<close>

definition gnuplot_init :: "env \<Rightarrow> gnuplot_ctrl \<Rightarrow> bool \<Rightarrow> world \<Rightarrow> handle \<times> world" where
  "gnuplot_init e junk popen_ok w =
     (let (p, buf') = gnuplot_get_program_path e (path_buf w) ''gnuplot'';
          w' = w\<lparr>path_buf := buf'\<rparr>
      in if p = NullPtr then (Null, w')
         else if \<not> popen_ok then (Null, w')
         else (Live (junk\<lparr>nplots := 0, ntmp := 0\<rparr>), w'))"

text \<open>
  \<^verbatim>\<open>gnuplot_cmd\<close>, as the functions of this file call it: with the finished command
  and no further argument. The command is taken to hold no conversion specification, so
  that \<^verbatim>\<open>vsprintf\<close> copies it; the line feed is appended and the line is written to
  the pipe. The results of \<^verbatim>\<open>fputs\<close> and \<^verbatim>\<open>fflush\<close> are not looked at.
\<close>

definition gnuplot_cmd :: "string \<Rightarrow> world \<Rightarrow> error + world" where
  "gnuplot_cmd cmd w =
     with_ctrl w (\<lambda>c. Inr (w\<lparr>engine_in := engine_in w @ [cmd @ newline]\<rparr>))"

definition gnuplot_setstyle :: "string \<Rightarrow> world \<Rightarrow> error + world" where
  "gnuplot_setstyle plot_style w =
     with_ctrl w (\<lambda>c.
       if plot_style \<noteq> ''lines'' \<and>
          plot_style \<noteq> ''points'' \<and>
          plot_style \<noteq> ''linespoints'' \<and>
          plot_style \<noteq> ''impulses'' \<and>
          plot_style \<noteq> ''dots'' \<and>
          plot_style \<noteq> ''steps'' \<and>
          plot_style \<noteq> ''histogram'' \<and>
          plot_style \<noteq> ''errorbars'' \<and>
          plot_style \<noteq> ''boxes'' \<and>
          plot_style \<noteq> ''boxerrorbars''
       then Inr (w\<lparr>plot_ctrl := Live (c\<lparr>pstyle := ''points''\<rparr>)\<rparr>)
       else Inr (w\<lparr>plot_ctrl := Live (c\<lparr>pstyle := plot_style\<rparr>)\<rparr>))"

definition gnuplot_set_title :: "string \<Rightarrow> world \<Rightarrow> error + world" where
  "gnuplot_set_title title w = gnuplot_cmd (''set title '' @ [CHR 0x27] @ title @ [CHR 0x27]) w"

definition gnuplot_set_xlabel :: "string \<Rightarrow> world \<Rightarrow> error + world" where
  "gnuplot_set_xlabel label w = gnuplot_cmd (''set xlabel '' @ dquote @ label @ dquote) w"

definition gnuplot_set_ylabel :: "string \<Rightarrow> world \<Rightarrow> error + world" where
  "gnuplot_set_ylabel label w = gnuplot_cmd (''set ylabel '' @ dquote @ label @ dquote) w"

text \<open>The registry: the first \<^verbatim>\<open>ntmp\<close> names of \<^verbatim>\<open>to_delete\<close>.\<close>

definition registry :: "gnuplot_ctrl \<Rightarrow> string list" where
  "registry c = map (to_delete c) [0..<nat (ntmp c)]"

text \<open>The loop of \<^verbatim>\<open>remove\<close> calls; the result of \<^verbatim>\<open>remove\<close> is not looked at.\<close>

fun remove_files :: "string list \<Rightarrow> (string \<Rightarrow> string list option) \<Rightarrow> (string \<Rightarrow> string list option)" where
  "remove_files [] fs = fs"
| "remove_files (name # names) fs = remove_files names (fs(name := None))"

definition gnuplot_resetplot :: "world \<Rightarrow> error + world" where
  "gnuplot_resetplot w =
     with_ctrl w (\<lambda>c.
       Inr (w\<lparr>files := remove_files (registry c) (files w),
              plot_ctrl := Live (c\<lparr>ntmp := 0, nplots := 0\<rparr>)\<rparr>))"

text \<open>
  \<^verbatim>\<open>gnuplot_close\<close>; \<^verbatim>\<open>pclose_ok\<close> is false when \<^verbatim>\<open>pclose\<close> returns -1.
\<close>

definition gnuplot_close :: "bool \<Rightarrow> world \<Rightarrow> error + world" where
  "gnuplot_close pclose_ok w =
     with_ctrl w (\<lambda>c.
       if \<not> pclose_ok then Inr w
       else Inr (w\<lparr>files := remove_files (registry c) (files w), plot_ctrl := Freed\<rparr>))"


subsection \<open>The plot builders\<close>

text \<open>
  \<^verbatim>\<open>mkstemp\<close>: \<^verbatim>\<open>sfx\<close> is what the host answers, \<^verbatim>\<open>None\<close> for a failure and else
  the six characters that replace \<^verbatim>\<open>XXXXXX\<close>. The host never returns the name of a
  file that exists.
\<close>

definition mkstemp :: "env \<Rightarrow> string option \<Rightarrow> world \<Rightarrow> string option" where
  "mkstemp e sfx w =
     (case sfx of
        None \<Rightarrow> None
      | Some s \<Rightarrow>
          let name = P_tmpdir e @ ''/gnuplot-i-'' @ s
          in if files w name \<noteq> None then None else Some name)"

text \<open>The verb: \<^verbatim>\<open>if (nplots > 0) "replot" else "plot"\<close>.\<close>

definition plot_verb :: "gnuplot_ctrl \<Rightarrow> string" where
  "plot_verb c = (if nplots c > 0 then ''replot'' else ''plot'')"

text \<open>The command of \<^verbatim>\<open>gnuplot_plot_x\<close> and \<^verbatim>\<open>gnuplot_plot_xy\<close> for a staged file.\<close>

definition plot_file_cmd :: "gnuplot_ctrl \<Rightarrow> string \<Rightarrow> string option \<Rightarrow> string" where
  "plot_file_cmd c name title =
     (case title of
        None \<Rightarrow> plot_verb c @ '' '' @ dquote @ name @ dquote @ '' with '' @ pstyle c
      | Some t \<Rightarrow>
          plot_verb c @ '' '' @ dquote @ name @ dquote @ '' title '' @ dquote @ t @ dquote
            @ '' with '' @ pstyle c)"

text \<open>
  The loop that writes the samples of \<^verbatim>\<open>gnuplot_plot_x\<close>, from \<^verbatim>\<open>i\<close> on; \<^verbatim>\<open>out\<close>
  is what was given to \<^verbatim>\<open>write\<close> so far. The result of \<^verbatim>\<open>write\<close> is not looked at.
\<close>

function write_x :: "env \<Rightarrow> real list \<Rightarrow> nat \<Rightarrow> nat \<Rightarrow> string list \<Rightarrow> error + string list" where
  "write_x e d n i out =
     (if i < n then
        if i < length d then write_x e d n (i + 1) (out @ [fmt_g e (d ! i) @ newline])
        else Inl OutOfBounds
      else Inr out)"
  by pat_completeness auto
termination
  by (relation "measure (\<lambda>(e, d, n, i, out). n - i)") auto

declare write_x.simps [simp del]

text \<open>
  The loop of \<^verbatim>\<open>gnuplot_plot_xy\<close>; \<^verbatim>\<open>wr i\<close> tells whether the \<^verbatim>\<open>i\<close>-th
  \<^verbatim>\<open>write\<close> wrote the whole line. The flag of the result is false when the function
  returned from inside the loop.
\<close>

function write_xy :: "env \<Rightarrow> (nat \<Rightarrow> bool) \<Rightarrow> real list \<Rightarrow> real list \<Rightarrow> nat \<Rightarrow> nat \<Rightarrow> string list
    \<Rightarrow> error + bool \<times> string list" where
  "write_xy e wr x y n i out =
     (if i < n then
        if i < length x \<and> i < length y then
          let line = fmt_g e (x ! i) @ '' '' @ fmt_g e (y ! i) @ newline
          in if wr i then write_xy e wr x y n (i + 1) (out @ [line])
             else Inr (False, out @ [line])
        else Inl OutOfBounds
      else Inr (True, out))"
  by pat_completeness auto
termination
  by (relation "measure (\<lambda>(e, wr, x, y, n, i, out). n - i)") auto

declare write_xy.simps [simp del]

definition gnuplot_plot_x :: "env \<Rightarrow> real list option \<Rightarrow> int \<Rightarrow> string option \<Rightarrow> string option
    \<Rightarrow> world \<Rightarrow> error + world" where
  "gnuplot_plot_x e d n title sfx w =
     (case plot_ctrl w of
        Null \<Rightarrow> Inr w
      | _ \<Rightarrow>
        (case d of
           None \<Rightarrow> Inr w
         | Some ds \<Rightarrow>
             if n < 1 then Inr w
             else with_ctrl w (\<lambda>c.
               if ntmp c = GP_MAX_TMP_FILES e - 1 then Inr w
               else
                 (case mkstemp e sfx w of
                    None \<Rightarrow> Inr w
                  | Some name \<Rightarrow>
                      if ntmp c < 0 \<or> GP_MAX_TMP_FILES e \<le> ntmp c then Inl OutOfBounds
                      else
                        (case write_x e ds (nat n) 0 [] of
                           Inl err \<Rightarrow> Inl err
                         | Inr out \<Rightarrow>
                             let c1 = c\<lparr>to_delete := (to_delete c)(nat (ntmp c) := name),
                                        ntmp := ntmp c + 1\<rparr>;
                                 w1 = w\<lparr>files := (files w)(name \<mapsto> out), plot_ctrl := Live c1\<rparr>
                             in (case gnuplot_cmd (plot_file_cmd c1 name title) w1 of
                                   Inl err \<Rightarrow> Inl err
                                 | Inr w2 \<Rightarrow>
                                     Inr (w2\<lparr>plot_ctrl := Live (c1\<lparr>nplots := nplots c1 + 1\<rparr>)\<rparr>)))))))"

definition gnuplot_plot_xy :: "env \<Rightarrow> real list option \<Rightarrow> real list option \<Rightarrow> int \<Rightarrow> string option
    \<Rightarrow> string option \<Rightarrow> (nat \<Rightarrow> bool) \<Rightarrow> world \<Rightarrow> error + world" where
  "gnuplot_plot_xy e x y n title sfx wr w =
     (case plot_ctrl w of
        Null \<Rightarrow> Inr w
      | _ \<Rightarrow>
        (case (x, y) of
           (Some xs, Some ys) \<Rightarrow>
             if n < 1 then Inr w
             else with_ctrl w (\<lambda>c.
               if ntmp c = GP_MAX_TMP_FILES e - 1 then Inr w
               else
                 (case mkstemp e sfx w of
                    None \<Rightarrow> Inr w
                  | Some name \<Rightarrow>
                      if ntmp c < 0 \<or> GP_MAX_TMP_FILES e \<le> ntmp c then Inl OutOfBounds
                      else
                        (case write_xy e wr xs ys (nat n) 0 [] of
                           Inl err \<Rightarrow> Inl err
                         | Inr (written, out) \<Rightarrow>
                             let c1 = c\<lparr>to_delete := (to_delete c)(nat (ntmp c) := name),
                                        ntmp := ntmp c + 1\<rparr>;
                                 w1 = w\<lparr>files := (files w)(name \<mapsto> out), plot_ctrl := Live c1\<rparr>
                             in if \<not> written then Inr w1
                                else
                                  (case gnuplot_cmd (plot_file_cmd c1 name title) w1 of
                                     Inl err \<Rightarrow> Inl err
                                   | Inr w2 \<Rightarrow>
                                       Inr (w2\<lparr>plot_ctrl := Live (c1\<lparr>nplots := nplots c1 + 1\<rparr>)\<rparr>)))))
         | _ \<Rightarrow> Inr w))"

text \<open>
  \<^verbatim>\<open>gnuplot_plot_slope\<close> fills \<^verbatim>\<open>stitle\<close> and then formats \<^verbatim>\<open>title\<close> with
  \<^verbatim>\<open>%s\<close>: \<^verbatim>\<open>stitle\<close> is never read.
\<close>

definition gnuplot_plot_slope :: "env \<Rightarrow> real \<Rightarrow> real \<Rightarrow> string option \<Rightarrow> world \<Rightarrow> error + world" where
  "gnuplot_plot_slope e a b title w =
     (let stitle = (case title of None \<Rightarrow> ''no title'' | Some t \<Rightarrow> t)
      in with_ctrl w (\<lambda>c.
           case title of
             None \<Rightarrow> Inl NullFormatArg
           | Some t \<Rightarrow>
               let cmd =
                 (if nplots c > 0
                  then ''replot '' @ fmt_g e a @ '' * x + '' @ fmt_g e b @ '' title '' @ dquote @ t
                         @ dquote @ '' with '' @ pstyle c
                  else ''plot '' @ fmt_g e a @ '' * x + '' @ fmt_g e b @ '' title '' @ dquote @ t
                         @ dquote @ '' with '' @ pstyle c)
               in (case gnuplot_cmd cmd w of
                     Inl err \<Rightarrow> Inl err
                   | Inr w1 \<Rightarrow> Inr (w1\<lparr>plot_ctrl := Live (c\<lparr>nplots := nplots c + 1\<rparr>)\<rparr>))))"

definition gnuplot_plot_equation :: "string \<Rightarrow> string option \<Rightarrow> world \<Rightarrow> error + world" where
  "gnuplot_plot_equation equation title w =
     (let title_str = (case title of None \<Rightarrow> ''no title'' | Some t \<Rightarrow> t)
      in with_ctrl w (\<lambda>c.
           let plot_str = (if nplots c > 0 then ''replot'' else ''plot'');
               cmd = plot_str @ '' '' @ equation @ '' title '' @ dquote @ title_str @ dquote
                       @ '' with '' @ pstyle c
           in (case gnuplot_cmd cmd w of
                 Inl err \<Rightarrow> Inl err
               | Inr w1 \<Rightarrow> Inr (w1\<lparr>plot_ctrl := Live (c\<lparr>nplots := nplots c + 1\<rparr>)\<rparr>))))"

text \<open>
  \<^verbatim>\<open>gnuplot_plot_histogram\<close>: \<^verbatim>\<open>nbins\<close> is the length of \<^verbatim>\<open>ordinate\<close>; the
  counters go to \<^verbatim>\<open>gnuplot_plot_xy\<close> after the style is set to boxes.
\<close>

definition gnuplot_plot_histogram :: "env \<Rightarrow> real list \<Rightarrow> real list option \<Rightarrow> int \<Rightarrow> string option
    \<Rightarrow> string option \<Rightarrow> (nat \<Rightarrow> bool) \<Rightarrow> world \<Rightarrow> error + world" where
  "gnuplot_plot_histogram e ordinate rawdata overflow title sfx wr w =
     (case rawdata of
        None \<Rightarrow> Inr w
      | Some rd \<Rightarrow>
          (case histogram_bins overflow ordinate rd of
             Inl err \<Rightarrow> Inl err
           | Inr bin \<Rightarrow>
               (case gnuplot_setstyle ''boxes'' w of
                  Inl err \<Rightarrow> Inl err
                | Inr w1 \<Rightarrow>
                    gnuplot_plot_xy e (Some ordinate) (Some bin) (int (length ordinate))
                      title sfx wr w1)))"

subsection \<open>Sessions that can be reached\<close>

text \<open>
  The calls a program can make on a \<^verbatim>\<open>GnuPlot\<close> object, with what the host answers
  to each. \<^verbatim>\<open>Init\<close> is the assignment \<^verbatim>\<open>plot_ctrl = gnuplot_init()\<close> of the
  constructor and of \<^verbatim>\<open>gnuplot_plot_once\<close>; the constructor is \<^verbatim>\<open>Init\<close> followed by
  \<^verbatim>\<open>SetStyle ''points''\<close>, and \<^verbatim>\<open>gnuplot_plot_once\<close> is \<^verbatim>\<open>Init\<close>, \<^verbatim>\<open>SetStyle\<close>,
  \<^verbatim>\<open>SetXLabel\<close>, \<^verbatim>\<open>SetYLabel\<close>, \<^verbatim>\<open>PlotX\<close> or \<^verbatim>\<open>PlotXY\<close>, a wait for the ENTER
  key, and \<^verbatim>\<open>Close\<close>.
\<close>

datatype call =
    Init gnuplot_ctrl bool
  | Close bool
  | Cmd string
  | SetStyle string
  | SetTitle string
  | SetXLabel string
  | SetYLabel string
  | ResetPlot
  | PlotX "real list option" int "string option" "string option"
  | PlotXY "real list option" "real list option" int "string option" "string option" "nat \<Rightarrow> bool"
  | PlotSlope real real "string option"
  | PlotEquation string "string option"
  | PlotHistogram "real list" "real list option" int "string option" "string option" "nat \<Rightarrow> bool"

fun step :: "env \<Rightarrow> call \<Rightarrow> world \<Rightarrow> error + world" where
  "step e (Init junk popen_ok) w =
     (let (h, w') = gnuplot_init e junk popen_ok w in Inr (w'\<lparr>plot_ctrl := h\<rparr>))"
| "step e (Close pclose_ok) w = gnuplot_close pclose_ok w"
| "step e (Cmd cmd) w = gnuplot_cmd cmd w"
| "step e (SetStyle s) w = gnuplot_setstyle s w"
| "step e (SetTitle t) w = gnuplot_set_title t w"
| "step e (SetXLabel l) w = gnuplot_set_xlabel l w"
| "step e (SetYLabel l) w = gnuplot_set_ylabel l w"
| "step e ResetPlot w = gnuplot_resetplot w"
| "step e (PlotX d n title sfx) w = gnuplot_plot_x e d n title sfx w"
| "step e (PlotXY x y n title sfx wr) w = gnuplot_plot_xy e x y n title sfx wr w"
| "step e (PlotSlope a b title) w = gnuplot_plot_slope e a b title w"
| "step e (PlotEquation eq title) w = gnuplot_plot_equation eq title w"
| "step e (PlotHistogram ordinate rawdata overflow title sfx wr) w =
     gnuplot_plot_histogram e ordinate rawdata overflow title sfx wr w"

text \<open>The object before its constructor ran, in a host with no temporary file of ours.\<close>

definition world0 :: world where
  "world0 = \<lparr>plot_ctrl = Null, engine_in = [], files = (\<lambda>name. None), path_buf = []\<rparr>"

inductive reachable :: "env \<Rightarrow> world \<Rightarrow> bool" for e :: env where
  start: "reachable e world0"
| after: "reachable e w \<Longrightarrow> step e c w = Inr w' \<Longrightarrow> reachable e w'"


subsection \<open>Notions used in the statements\<close>

text \<open>The interval test of the inner loop of the histogram.\<close>

definition in_interval :: "real list \<Rightarrow> real \<Rightarrow> nat \<Rightarrow> bool" where
  "in_interval ordinate x i \<longleftrightarrow> ordinate ! i \<le> x \<and> x < ordinate ! (i + 1)"

text \<open>A sample for which only the interval test of the inner loop can fire.\<close>

definition plain_step :: "int \<Rightarrow> real list \<Rightarrow> real \<Rightarrow> bool" where
  "plain_step overflow ordinate x \<longleftrightarrow>
     overflow = 0 \<or> (ordinate ! 0 < x \<and> x < ordinate ! (length ordinate - 1))"

text \<open>The enumeration of styles, as the specification lists it.\<close>

definition spec_styles :: "string list" where
  "spec_styles = [''lines'', ''points'', ''linespoints'', ''impulses'', ''dots'', ''steps'',
     ''histogram'', ''errorbars'', ''boxes'', ''boxerrorbars'']"

text \<open>What the reachable sessions have in common.\<close>

definition session_inv :: "env \<Rightarrow> world \<Rightarrow> bool" where
  "session_inv e w =
     (case plot_ctrl w of
        Live c \<Rightarrow>
          0 \<le> nplots c \<and> 0 \<le> ntmp c \<and> (1 \<le> GP_MAX_TMP_FILES e \<longrightarrow> ntmp c < GP_MAX_TMP_FILES e)
      | _ \<Rightarrow> True)"

text \<open>The calls that build a plot.\<close>

fun is_plot :: "call \<Rightarrow> bool" where
  "is_plot (PlotX d n title sfx) = True"
| "is_plot (PlotXY x y n title sfx wr) = True"
| "is_plot (PlotSlope a b title) = True"
| "is_plot (PlotEquation eq title) = True"
| "is_plot (PlotHistogram ordinate rawdata overflow title sfx wr) = True"
| "is_plot _ = False"

text \<open>
  A call that went from \<^verbatim>\<open>w\<close> to \<^verbatim>\<open>w'\<close> completed a plot: it wrote one line to
  the engine, which starts with the verb chosen from the counter of \<^verbatim>\<open>c\<close>, and the
  counter is one more.
\<close>

definition plot_sent :: "gnuplot_ctrl \<Rightarrow> world \<Rightarrow> world \<Rightarrow> bool" where
  "plot_sent c w w' \<longleftrightarrow>
     (\<exists>c' rest. plot_ctrl w' = Live c' \<and> nplots c' = nplots c + 1 \<and>
        engine_in w' = engine_in w @ [plot_verb c @ '' '' @ rest])"

text \<open>A call that went from \<^verbatim>\<open>w\<close> to \<^verbatim>\<open>w'\<close> wrote nothing to the engine and left the counter.\<close>

definition plot_abandoned :: "gnuplot_ctrl \<Rightarrow> world \<Rightarrow> world \<Rightarrow> bool" where
  "plot_abandoned c w w' \<longleftrightarrow>
     (\<exists>c'. plot_ctrl w' = Live c' \<and> nplots c' = nplots c \<and> engine_in w' = engine_in w)"

text \<open>
  Two successive calls of the locator, the second with the static buffer as the first left
  it: what the caller reads through the pointer of the first call right after that call,
  what it reads through the same pointer after the second call, and what it reads
  through the pointer of the second call.
\<close>

definition two_calls :: "env \<Rightarrow> string \<Rightarrow> string \<Rightarrow> string
    \<Rightarrow> string option \<times> string option \<times> string option" where
  "two_calls e buf p1 p2 =
     (let (r1, b1) = gnuplot_get_program_path e buf p1;
          (r2, b2) = gnuplot_get_program_path e b1 p2
      in (read_ptr r1 b1, read_ptr r1 b2, read_ptr r2 b2))"

subsection \<open>A sample host and session\<close>

text \<open>
  A host where gnuplot is in \<^verbatim>\<open>/usr/bin\<close> and a shell in \<^verbatim>\<open>/bin\<close>, where
  \<^verbatim>\<open>GP_MAX_TMP_FILES\<close> is 2, with a stand-in for the rendering of numbers (right
  for 0 and 1).
\<close>

definition env0 :: env where
  "env0 = \<lparr>PATH = Some ''/bin:/usr/bin'',
            access_X_OK = (\<lambda>p. p = ''/usr/bin/gnuplot'' \<or> p = ''/bin/sh''),
            GP_MAX_TMP_FILES = 2,
            P_tmpdir = ''/tmp'',
            fmt_g = (\<lambda>x. if x = 0 then ''0'' else if x = 1 then ''1'' else ''x'')\<rparr>"

definition ctrl0 :: gnuplot_ctrl where
  "ctrl0 = \<lparr>nplots = 0, pstyle = ''points'', to_delete = (\<lambda>i. []), ntmp = 0\<rparr>"

text \<open>The session after the constructor ran in \<^verbatim>\<open>env0\<close>.\<close>

definition session0 :: world where
  "session0 = \<lparr>plot_ctrl = Live ctrl0, engine_in = [], files = (\<lambda>name. None),
                path_buf = ''/usr/bin''\<rparr>"

text \<open>A session with one staged file and one plot.\<close>

definition ctrl1 :: gnuplot_ctrl where
  "ctrl1 = \<lparr>nplots = 1, pstyle = ''points'',
             to_delete = (\<lambda>i. if i = 0 then ''/tmp/gnuplot-i-aaaaaa'' else []), ntmp = 1\<rparr>"

definition session1 :: world where
  "session1 = \<lparr>plot_ctrl = Live ctrl1,
                engine_in = [''plot '' @ dquote @ ''/tmp/gnuplot-i-aaaaaa'' @ dquote @ '' with points''
                               @ newline],
                files = (\<lambda>name. if name = ''/tmp/gnuplot-i-aaaaaa'' then Some [''1'' @ newline] else None),
                path_buf = ''/usr/bin''\<rparr>"

text \<open>A host whose every \<^verbatim>\<open>write\<close> writes the whole line.\<close>

definition writes_ok :: "nat \<Rightarrow> bool" where
  "writes_ok i = True"

section \<open>The histogram counters: lemmas\<close>

lemma length_bin_step: "length (bin_step overflow ordinate x bin i) = length bin"
  by (simp add: bin_step_def Let_def)

lemma length_scan_bins: "length (scan_bins overflow ordinate x i bin) = length bin"
proof (induction overflow ordinate x i bin rule: scan_bins.induct)
  case (1 overflow ordinate x i bin)
  show ?case
  proof (cases "i + 1 < length ordinate")
    case True
    with 1 show ?thesis
      by (subst scan_bins.simps) (simp add: length_bin_step)
  next
    case False
    then show ?thesis by (subst scan_bins.simps) simp
  qed
qed

lemma in_interval_unique:
  assumes "sorted ordinate" "in_interval ordinate x k" "in_interval ordinate x j"
    "k + 1 < length ordinate" "j + 1 < length ordinate"
  shows "j = k"
proof (rule ccontr)
  assume "j \<noteq> k"
  then consider "j < k" | "k < j" by linarith
  then show False
  proof cases
    case 1
    then have "ordinate ! (j + 1) \<le> ordinate ! k"
      using assms(1,4) by (intro sorted_nth_mono) auto
    with assms(2,3) show False by (simp add: in_interval_def)
  next
    case 2
    then have "ordinate ! (k + 1) \<le> ordinate ! j"
      using assms(1,5) by (intro sorted_nth_mono) auto
    with assms(2,3) show False by (simp add: in_interval_def)
  qed
qed

lemma bin_step_plain:
  "plain_step overflow ordinate x \<Longrightarrow>
   bin_step overflow ordinate x bin i =
     (if in_interval ordinate x i then bin[i := bin ! i + 1] else bin)"
  by (auto simp: plain_step_def bin_step_def in_interval_def Let_def)

lemma scan_bins_no_interval:
  "plain_step overflow ordinate x \<Longrightarrow>
   (\<And>j. i \<le> j \<Longrightarrow> j + 1 < length ordinate \<Longrightarrow> \<not> in_interval ordinate x j) \<Longrightarrow>
   scan_bins overflow ordinate x i bin = bin"
proof (induction overflow ordinate x i bin rule: scan_bins.induct)
  case (1 overflow ordinate x i bin)
  show ?case
  proof (cases "i + 1 < length ordinate")
    case True
    have "\<not> in_interval ordinate x i" using 1(3) [of i] True by simp
    then have st: "bin_step overflow ordinate x bin i = bin"
      using 1(2) by (simp add: bin_step_plain)
    have "scan_bins overflow ordinate x (i + 1) (bin_step overflow ordinate x bin i)
        = bin_step overflow ordinate x bin i"
    proof (rule 1(1) [OF True 1(2)])
      fix j assume "i + 1 \<le> j" "j + 1 < length ordinate"
      then show "\<not> in_interval ordinate x j" using 1(3) [of j] by simp
    qed
    with True st show ?thesis by (subst scan_bins.simps) simp
  next
    case False
    then show ?thesis by (subst scan_bins.simps) simp
  qed
qed

lemma scan_bins_one_interval:
  "plain_step overflow ordinate x \<Longrightarrow> i \<le> k \<Longrightarrow> k + 1 < length ordinate \<Longrightarrow>
   in_interval ordinate x k \<Longrightarrow>
   (\<And>j. j + 1 < length ordinate \<Longrightarrow> in_interval ordinate x j \<Longrightarrow> j = k) \<Longrightarrow>
   scan_bins overflow ordinate x i bin = bin[k := bin ! k + 1]"
proof (induction overflow ordinate x i bin rule: scan_bins.induct)
  case (1 overflow ordinate x i bin)
  have lt: "i + 1 < length ordinate" using 1(3,4) by simp
  show ?case
  proof (cases "i = k")
    case True
    have st: "bin_step overflow ordinate x bin i = bin[k := bin ! k + 1]"
      using 1(2,5) True by (simp add: bin_step_plain)
    have "scan_bins overflow ordinate x (i + 1) (bin[k := bin ! k + 1]) = bin[k := bin ! k + 1]"
    proof (rule scan_bins_no_interval [OF 1(2)])
      fix j assume j: "i + 1 \<le> j" "j + 1 < length ordinate"
      show "\<not> in_interval ordinate x j"
      proof
        assume "in_interval ordinate x j"
        with j(2) have "j = k" by (rule 1(6))
        with j(1) True show False by simp
      qed
    qed
    with lt st show ?thesis by (subst scan_bins.simps) simp
  next
    case False
    have "\<not> in_interval ordinate x i"
    proof
      assume "in_interval ordinate x i"
      with lt have "i = k" by (rule 1(6))
      with False show False by simp
    qed
    then have st: "bin_step overflow ordinate x bin i = bin"
      using 1(2) by (simp add: bin_step_plain)
    have "scan_bins overflow ordinate x (i + 1) (bin_step overflow ordinate x bin i)
        = (bin_step overflow ordinate x bin i)[k := bin_step overflow ordinate x bin i ! k + 1]"
    proof (rule 1(1) [OF lt 1(2) _ 1(4) 1(5)])
      show "i + 1 \<le> k" using False 1(3) by simp
    next
      fix j assume "j + 1 < length ordinate" "in_interval ordinate x j"
      then show "j = k" by (rule 1(6))
    qed
    with lt st show ?thesis by (subst scan_bins.simps) simp
  qed
qed

text \<open>Clamping: a sample at or below the first edge touches bin 0 only, once for every interval scanned.\<close>

lemma scan_bins_low:
  "overflow \<noteq> 0 \<Longrightarrow> x \<le> ordinate ! 0 \<Longrightarrow> 0 < length bin \<Longrightarrow>
   scan_bins overflow ordinate x i bin = bin[0 := bin ! 0 + real (length ordinate - 1 - i)]"
proof (induction overflow ordinate x i bin rule: scan_bins.induct)
  case (1 overflow ordinate x i bin)
  show ?case
  proof (cases "i + 1 < length ordinate")
    case True
    have st: "bin_step overflow ordinate x bin i = bin[0 := bin ! 0 + 1]"
      using 1(2,3) by (simp add: bin_step_def Let_def)
    have "scan_bins overflow ordinate x (i + 1) (bin_step overflow ordinate x bin i)
      = (bin_step overflow ordinate x bin i)[0 := bin_step overflow ordinate x bin i ! 0 
           + real (length ordinate - 1 - (i + 1))]"
      using True 1(2-4) by (intro 1(1)) (auto simp: length_bin_step)
    moreover have "real (length ordinate - 1 - i) = 1 + real (length ordinate - 1 - (i + 1))"
      using True by (simp add: of_nat_diff)
    ultimately show ?thesis using True st 1(4)
      by (subst scan_bins.simps) (simp add: algebra_simps)
  next
    case False
    then have "length ordinate - 1 - i = 0" by simp
    with False show ?thesis by (subst scan_bins.simps) simp
  qed
qed

lemma scan_bins_high:
  "overflow \<noteq> 0 \<Longrightarrow> ordinate ! 0 < x \<Longrightarrow> ordinate ! (length ordinate - 1) \<le> x \<Longrightarrow>
   length bin = length ordinate \<Longrightarrow>
   scan_bins overflow ordinate x i bin
     = bin[length ordinate - 1 := bin ! (length ordinate - 1) + real (length ordinate - 1 - i)]"
proof (induction overflow ordinate x i bin rule: scan_bins.induct)
  case (1 overflow ordinate x i bin)
  show ?case
  proof (cases "i + 1 < length ordinate")
    case True
    have st: "bin_step overflow ordinate x bin i
        = bin[length ordinate - 1 := bin ! (length ordinate - 1) + 1]"
      using 1(2,3,4) by (simp add: bin_step_def Let_def)
    have "scan_bins overflow ordinate x (i + 1) (bin_step overflow ordinate x bin i)
      = (bin_step overflow ordinate x bin i)[length ordinate - 1 :=
           bin_step overflow ordinate x bin i ! (length ordinate - 1)
           + real (length ordinate - 1 - (i + 1))]"
      using True 1(2-5) by (intro 1(1)) (auto simp: length_bin_step)
    moreover have "real (length ordinate - 1 - i) = 1 + real (length ordinate - 1 - (i + 1))"
      using True by (simp add: of_nat_diff)
    ultimately show ?thesis using True st 1(5)
      by (subst scan_bins.simps) (simp add: algebra_simps)
  next
    case False
    then have "length ordinate - 1 - i = 0" by simp
    with False show ?thesis by (subst scan_bins.simps) simp
  qed
qed


lemma bin_samples_take:
  "bin_samples overflow ordinate rawdata j bin
     = bin_samples overflow ordinate (take (length ordinate) rawdata) j bin"
proof (induction overflow ordinate rawdata j bin rule: bin_samples.induct)
  case (1 overflow ordinate rawdata j bin)
  show ?case
  proof (cases "j < length ordinate \<and> j < length rawdata \<and> rawdata ! j \<noteq> 0")
    case True
    then have "bin_samples overflow ordinate rawdata (j + 1)
                 (scan_bins overflow ordinate (rawdata ! j) 0 bin)
             = bin_samples overflow ordinate (take (length ordinate) rawdata) (j + 1)
                 (scan_bins overflow ordinate (rawdata ! j) 0 bin)"
      by (intro 1) auto
    with True show ?thesis
      by (subst bin_samples.simps, subst (2) bin_samples.simps) simp
  next
    case False
    then show ?thesis
      by (subst bin_samples.simps, subst (2) bin_samples.simps) auto
  qed
qed

lemma bin_samples_fold:
  "length ordinate \<le> length rawdata \<Longrightarrow>
   bin_samples overflow ordinate rawdata j bin
     = Inr (foldl (\<lambda>b x. scan_bins overflow ordinate x 0 b) bin
              (takeWhile (\<lambda>x. x \<noteq> 0) (drop j (take (length ordinate) rawdata))))"
proof (induction overflow ordinate rawdata j bin rule: bin_samples.induct)
  case (1 overflow ordinate rawdata j bin)
  show ?case
  proof (cases "j < length ordinate")
    case True
    then have jr: "j < length rawdata" using 1(2) by simp
    have dr: "drop j (take (length ordinate) rawdata)
        = rawdata ! j # drop (j + 1) (take (length ordinate) rawdata)"
      using True jr by (simp add: Cons_nth_drop_Suc [symmetric])
    show ?thesis
    proof (cases "rawdata ! j = 0")
      case True
      with \<open>j < length ordinate\<close> jr dr show ?thesis
        by (subst bin_samples.simps) simp
    next
      case False
      with \<open>j < length ordinate\<close> jr 1 dr show ?thesis
        by (subst bin_samples.simps) simp
    qed
  next
    case False
    then show ?thesis by (subst bin_samples.simps) simp
  qed
qed


lemma histogram_bins_take:
  "histogram_bins overflow ordinate rawdata
     = histogram_bins overflow ordinate (take (length ordinate) rawdata)"
  unfolding histogram_bins_def by (rule bin_samples_take)

section \<open>The histogram counters: the claims\<close>

text \<open>
  C1, as the claim states it, fails: with the edges 0, 1, 2, 3 and the samples
  0.5, 1.5, 2.5, -1, 5 the clamping policy gives the counts 4, 1, 1, 0 and not 2, 1, 1, 0.
  The loop reads the first four samples only (its guard is \<^verbatim>\<open>j<nbins\<close>), and the
  sample -1 is counted in bin 0 at each of the three turns of the inner loop.
\<close>

theorem histogram_clamping_counterexample:
  "histogram_bins 1 [0, 1, 2, 3] [0.5, 1.5, 2.5, -1, 5] = Inr [4, 1, 1, 0]
   \<and> histogram_bins 1 [0, 1, 2, 3] [0.5, 1.5, 2.5, -1, 5] \<noteq> Inr [2, 1, 1, 0]"
  by (simp add: histogram_bins_def bin_samples.simps scan_bins.simps bin_step_def)

text \<open>
  C1, amended: under the clamping policy the histogram reads only the first
  \<^verbatim>\<open>nbins\<close> samples and stops at the first sample that is zero; the counts are the
  bins after one scan for each sample read. With ascending edges, a sample read that lies
  strictly between the first and the last edge increments the bin of its half-open
  interval exactly once and no other bin; a sample read that is at most the first edge
  changes no bin but bin 0; a sample read that is above the first edge and at least the
  last edge changes no bin but the last. With the edges 0, 1, 2, 3 and the samples
  0.5, 1.5, 2.5, -1, 5 the fifth sample is not read and the counts of the bins 1, 2, 3
  are 1, 1, 0.
\<close>

theorem histogram_clamping:
  assumes "overflow \<noteq> 0" and "sorted ordinate" and "length bin = length ordinate"
  shows "histogram_bins overflow ordinate rawdata
           = histogram_bins overflow ordinate (take (length ordinate) rawdata)
    \<and> (length ordinate \<le> length rawdata \<longrightarrow>
         histogram_bins overflow ordinate rawdata
           = Inr (foldl (\<lambda>b s. scan_bins overflow ordinate s 0 b)
                    (replicate (length ordinate) 0)
                    (takeWhile (\<lambda>s. s \<noteq> 0) (take (length ordinate) rawdata))))
    \<and> (ordinate ! 0 < x \<and> k + 1 < length ordinate \<and> ordinate ! k \<le> x \<and> x < ordinate ! (k + 1) \<longrightarrow>
         scan_bins overflow ordinate x 0 bin = bin[k := bin ! k + 1])
    \<and> (lo \<le> ordinate ! 0 \<and> 0 < i \<longrightarrow> scan_bins overflow ordinate lo 0 bin ! i = bin ! i)
    \<and> (ordinate ! 0 < hi \<and> ordinate ! (length ordinate - 1) \<le> hi \<and> j \<noteq> length ordinate - 1 \<longrightarrow>
         scan_bins overflow ordinate hi 0 bin ! j = bin ! j)
    \<and> histogram_bins overflow [0, 1, 2, 3] [0.5, 1.5, 2.5, -1, 5]
         = histogram_bins overflow [0, 1, 2, 3] [0.5, 1.5, 2.5, -1]
    \<and> map_sum id tl (histogram_bins overflow [0, 1, 2, 3] [0.5, 1.5, 2.5, -1, 5]) = Inr [1, 1, 0]"
proof -
  have a: "histogram_bins overflow ordinate rawdata
           = histogram_bins overflow ordinate (take (length ordinate) rawdata)"
    by (rule histogram_bins_take)
  have b: "histogram_bins overflow ordinate rawdata
           = Inr (foldl (\<lambda>b s. scan_bins overflow ordinate s 0 b)
                    (replicate (length ordinate) 0)
                    (takeWhile (\<lambda>s. s \<noteq> 0) (take (length ordinate) rawdata)))"
    if "length ordinate \<le> length rawdata"
    unfolding histogram_bins_def using that by (simp add: bin_samples_fold)
  have c: "scan_bins overflow ordinate x 0 bin = bin[k := bin ! k + 1]"
    if h: "ordinate ! 0 < x" "k + 1 < length ordinate" "ordinate ! k \<le> x" "x < ordinate ! (k + 1)"
  proof -
    have "ordinate ! (k + 1) \<le> ordinate ! (length ordinate - 1)"
      using assms(2) h(2) by (intro sorted_nth_mono) auto
    with h have p: "plain_step overflow ordinate x" by (simp add: plain_step_def)
    have kk: "in_interval ordinate x k" using h by (simp add: in_interval_def)
    show ?thesis
      using in_interval_unique [OF assms(2) kk] h(2)
      by (intro scan_bins_one_interval [OF p _ _ kk]) auto
  qed
  have d: "scan_bins overflow ordinate lo 0 bin ! i = bin ! i" if "lo \<le> ordinate ! 0" "0 < i"
  proof (cases "bin = []")
    case True
    then have "scan_bins overflow ordinate lo 0 bin = []"
      using length_scan_bins [of overflow ordinate lo 0 bin] by simp
    with True show ?thesis by simp
  next
    case False
    with that assms(1) show ?thesis by (simp add: scan_bins_low)
  qed
  have e: "scan_bins overflow ordinate hi 0 bin ! j = bin ! j"
    if "ordinate ! 0 < hi" "ordinate ! (length ordinate - 1) \<le> hi" "j \<noteq> length ordinate - 1"
    using that assms(1,3) by (simp add: scan_bins_high)
  have f: "histogram_bins overflow [0, 1, 2, 3] [0.5, 1.5, 2.5, -1, 5]
         = histogram_bins overflow [0, 1, 2, 3] [0.5, 1.5, 2.5, -1]"
    using histogram_bins_take [of overflow "[0, 1, 2, 3]" "[0.5, 1.5, 2.5, -1, 5]"] by simp
  have "histogram_bins overflow [0, 1, 2, 3] [0.5, 1.5, 2.5, -1, 5]
      = Inr [1 + 3, 1, 1, 0]"
    using assms(1)
    by (simp add: histogram_bins_def bin_samples.simps scan_bins.simps bin_step_def)
  then have g: "map_sum id tl (histogram_bins overflow [0, 1, 2, 3] [0.5, 1.5, 2.5, -1, 5])
      = Inr [1, 1, 0]"
    by simp
  from a b c d e f g show ?thesis by blast
qed

theorem histogram_clamping_witness:
  "histogram_bins 1 [0, 1, 2, 3] [0.5, 1.5, 2.5, -1, 5] = histogram_bins 1 [0, 1, 2, 3] [0.5, 1.5, 2.5, -1]
   \<and> histogram_bins 1 [0, 1, 2, 3] [0.5, 1.5, 2.5, -1]
       = Inr (foldl (\<lambda>b s. scan_bins 1 [0, 1, 2, 3] s 0 b) [0, 0, 0, 0] [0.5, 1.5, 2.5, -1])
   \<and> scan_bins 1 [0, 1, 2, 3] 1.5 0 [1, 1, 1, 0] = [1, 2, 1, 0]
   \<and> scan_bins 1 [0, 1, 2, 3] (-1) 0 [1, 1, 1, 0] ! 2 = 1
   \<and> scan_bins 1 [0, 1, 2, 3] 5 0 [1, 1, 1, 0] ! 1 = 1
   \<and> map_sum id tl (histogram_bins 1 [0, 1, 2, 3] [0.5, 1.5, 2.5, -1, 5]) = Inr [1, 1, 0]"
proof -
  have s: "sorted [0, 1, 2, 3 :: real]" by simp
  have one: "(1::int) \<noteq> 0" by simp
  have len: "length [1, 1, 1, 0 :: real] = length [0, 1, 2, 3 :: real]" by simp
  note t = histogram_clamping [OF one s len, of "[0.5, 1.5, 2.5, -1]" "1.5" 1 "-1" 2 5 1]
  from t have five: "histogram_bins 1 [0, 1, 2, 3] [0.5, 1.5, 2.5, -1, 5]
         = histogram_bins 1 [0, 1, 2, 3] [0.5, 1.5, 2.5, -1]"
    by blast
  from t have rest: "map_sum id tl (histogram_bins 1 [0, 1, 2, 3] [0.5, 1.5, 2.5, -1, 5]) = Inr [1, 1, 0]"
    by blast
  from t have "length [0, 1, 2, 3 :: real] \<le> length [0.5, 1.5, 2.5, -1 :: real] \<longrightarrow>
       histogram_bins 1 [0, 1, 2, 3] [0.5, 1.5, 2.5, -1]
         = Inr (foldl (\<lambda>b s. scan_bins 1 [0, 1, 2, 3] s 0 b) (replicate (length [0, 1, 2, 3 :: real]) 0)
             (takeWhile (\<lambda>s. s \<noteq> 0) (take (length [0, 1, 2, 3 :: real]) [0.5, 1.5, 2.5, -1])))"
    by blast
  then have fold: "histogram_bins 1 [0, 1, 2, 3] [0.5, 1.5, 2.5, -1]
       = Inr (foldl (\<lambda>b s. scan_bins 1 [0, 1, 2, 3] s 0 b) [0, 0, 0, 0] [0.5, 1.5, 2.5, -1])"
    by (simp add: numeral_eq_Suc)
  from t have "[0, 1, 2, 3 :: real] ! 0 < 1.5 \<and> 1 + 1 < length [0, 1, 2, 3 :: real]
       \<and> [0, 1, 2, 3 :: real] ! 1 \<le> 1.5 \<and> 1.5 < [0, 1, 2, 3 :: real] ! (1 + 1) \<longrightarrow>
       scan_bins 1 [0, 1, 2, 3] 1.5 0 [1, 1, 1, 0] = [1, 1, 1, 0][1 := [1, 1, 1, 0] ! 1 + 1]"
    by blast
  then have mid: "scan_bins 1 [0, 1, 2, 3] 1.5 0 [1, 1, 1, 0] = [1, 2, 1, 0]"
    by (simp add: numeral_eq_Suc)
  from t have "-1 \<le> [0, 1, 2, 3 :: real] ! 0 \<and> 0 < (2::nat) \<longrightarrow>
       scan_bins 1 [0, 1, 2, 3] (-1) 0 [1, 1, 1, 0] ! 2 = [1, 1, 1, 0] ! 2"
    by blast
  then have low: "scan_bins 1 [0, 1, 2, 3] (-1) 0 [1, 1, 1, 0] ! 2 = 1"
    by (simp add: numeral_eq_Suc)
  from t have "[0, 1, 2, 3 :: real] ! 0 < 5 \<and> [0, 1, 2, 3 :: real] ! (length [0, 1, 2, 3 :: real] - 1) \<le> 5
       \<and> (1::nat) \<noteq> length [0, 1, 2, 3 :: real] - 1 \<longrightarrow>
       scan_bins 1 [0, 1, 2, 3] 5 0 [1, 1, 1, 0] ! 1 = [1, 1, 1, 0] ! 1"
    by blast
  then have high: "scan_bins 1 [0, 1, 2, 3] 5 0 [1, 1, 1, 0] ! 1 = 1"
    by (simp add: numeral_eq_Suc)
  from five fold mid low high rest show ?thesis by blast
qed

text \<open>
  C7: under the strict policy the edges 0, 1, 2, 3 and the samples 0.5, 1.5, 2.5, -1, 5 give
  the counts 1, 1, 1, 0. With ascending edges, the scan for a sample below the first edge or
  at or above the last edge leaves every bin as it was; a scan that changes a bin is the
  scan of a sample in the range from the first edge (included) to the last edge
  (excluded), and it increments the bin of the sample's half-open interval exactly once.
  The counts are the bins after one such scan for each sample that is read.
\<close>

theorem histogram_strict:
  assumes "sorted ordinate" and "length bin = length ordinate"
  shows "histogram_bins 0 [0, 1, 2, 3] [0.5, 1.5, 2.5, -1, 5] = Inr [1, 1, 1, 0]
    \<and> (x < ordinate ! 0 \<or> ordinate ! (length ordinate - 1) \<le> x \<longrightarrow>
         scan_bins 0 ordinate x 0 bin = bin)
    \<and> (scan_bins 0 ordinate x 0 bin \<noteq> bin \<longrightarrow>
         ordinate ! 0 \<le> x \<and> x < ordinate ! (length ordinate - 1))
    \<and> (k + 1 < length ordinate \<and> ordinate ! k \<le> y \<and> y < ordinate ! (k + 1) \<longrightarrow>
         scan_bins 0 ordinate y 0 bin = bin[k := bin ! k + 1])
    \<and> (length ordinate \<le> length rawdata \<longrightarrow>
         histogram_bins 0 ordinate rawdata
           = Inr (foldl (\<lambda>b s. scan_bins 0 ordinate s 0 b)
                    (replicate (length ordinate) 0)
                    (takeWhile (\<lambda>s. s \<noteq> 0) (take (length ordinate) rawdata))))"
proof -
  have p: "plain_step 0 ordinate s" for s by (simp add: plain_step_def)
  have f: "histogram_bins 0 ordinate rawdata
           = Inr (foldl (\<lambda>b s. scan_bins 0 ordinate s 0 b)
                    (replicate (length ordinate) 0)
                    (takeWhile (\<lambda>s. s \<noteq> 0) (take (length ordinate) rawdata)))"
    if "length ordinate \<le> length rawdata"
    unfolding histogram_bins_def using that by (simp add: bin_samples_fold)
  have a: "histogram_bins 0 [0, 1, 2, 3] [0.5, 1.5, 2.5, -1, 5] = Inr [1, 1, 1, 0]"
    by (simp add: histogram_bins_def bin_samples.simps scan_bins.simps bin_step_def)
  have b: "scan_bins 0 ordinate x 0 bin = bin"
    if out: "x < ordinate ! 0 \<or> ordinate ! (length ordinate - 1) \<le> x"
  proof (rule scan_bins_no_interval [OF p])
    fix j assume j: "0 \<le> j" "j + 1 < length ordinate"
    have "ordinate ! 0 \<le> ordinate ! j"
      using assms(1) j by (intro sorted_nth_mono) auto
    moreover have "ordinate ! (j + 1) \<le> ordinate ! (length ordinate - 1)"
      using assms(1) j by (intro sorted_nth_mono) auto
    ultimately show "\<not> in_interval ordinate x j"
      using out by (auto simp: in_interval_def)
  qed
  have c: "ordinate ! 0 \<le> x \<and> x < ordinate ! (length ordinate - 1)"
    if "scan_bins 0 ordinate x 0 bin \<noteq> bin"
    using that b by fastforce
  have d: "scan_bins 0 ordinate y 0 bin = bin[k := bin ! k + 1]"
    if h: "k + 1 < length ordinate" "ordinate ! k \<le> y" "y < ordinate ! (k + 1)"
  proof -
    have kk: "in_interval ordinate y k" using h by (simp add: in_interval_def)
    show ?thesis
      using in_interval_unique [OF assms(1) kk] h(1)
      by (intro scan_bins_one_interval [OF p _ _ kk]) auto
  qed
  from a b c d f show ?thesis by blast
qed

theorem histogram_strict_witness:
  "histogram_bins 0 [0, 1, 2, 3] [0.5, 1.5, 2.5, -1, 5] = Inr [1, 1, 1, 0]
   \<and> scan_bins 0 [0, 1, 2, 3] (-1) 0 [1, 1, 0, 0] = [1, 1, 0, 0]
   \<and> scan_bins 0 [0, 1, 2, 3] 2.5 0 [1, 1, 0, 0] = [1, 1, 1, 0]
   \<and> histogram_bins 0 [0, 1, 2, 3] [0.5, 1.5, 2.5, -1, 5]
       = Inr (foldl (\<lambda>b s. scan_bins 0 [0, 1, 2, 3] s 0 b) [0, 0, 0, 0] [0.5, 1.5, 2.5, -1])"
proof -
  have s: "sorted [0, 1, 2, 3 :: real]" by simp
  have len: "length [1, 1, 0, 0 :: real] = length [0, 1, 2, 3 :: real]" by simp
  note t = histogram_strict [OF s len, of "-1" 2 "2.5" "[0.5, 1.5, 2.5, -1, 5]"]
  from t have "length [0, 1, 2, 3 :: real] \<le> length [0.5, 1.5, 2.5, -1, 5 :: real] \<longrightarrow>
       histogram_bins 0 [0, 1, 2, 3] [0.5, 1.5, 2.5, -1, 5]
         = Inr (foldl (\<lambda>b s. scan_bins 0 [0, 1, 2, 3] s 0 b) (replicate (length [0, 1, 2, 3 :: real]) 0)
             (takeWhile (\<lambda>s. s \<noteq> 0) (take (length [0, 1, 2, 3 :: real]) [0.5, 1.5, 2.5, -1, 5])))"
    by blast
  then have d: "histogram_bins 0 [0, 1, 2, 3] [0.5, 1.5, 2.5, -1, 5]
       = Inr (foldl (\<lambda>b s. scan_bins 0 [0, 1, 2, 3] s 0 b) [0, 0, 0, 0] [0.5, 1.5, 2.5, -1])"
    by (simp add: numeral_eq_Suc)
  from t have a: "histogram_bins 0 [0, 1, 2, 3] [0.5, 1.5, 2.5, -1, 5] = Inr [1, 1, 1, 0]"
    by blast
  from t have "-1 < [0, 1, 2, 3 :: real] ! 0 \<or> [0, 1, 2, 3 :: real] ! (length [0, 1, 2, 3 :: real] - 1) \<le> -1
      \<longrightarrow> scan_bins 0 [0, 1, 2, 3] (-1) 0 [1, 1, 0, 0] = [1, 1, 0, 0]"
    by blast
  then have b: "scan_bins 0 [0, 1, 2, 3] (-1) 0 [1, 1, 0, 0] = [1, 1, 0, 0]"
    by simp
  from t have "2 + 1 < length [0, 1, 2, 3 :: real] \<and> [0, 1, 2, 3 :: real] ! 2 \<le> 2.5
      \<and> 2.5 < [0, 1, 2, 3 :: real] ! (2 + 1)
      \<longrightarrow> scan_bins 0 [0, 1, 2, 3] 2.5 0 [1, 1, 0, 0] = [1, 1, 0, 0][2 := [1, 1, 0, 0] ! 2 + 1]"
    by blast
  then have c: "scan_bins 0 [0, 1, 2, 3] 2.5 0 [1, 1, 0, 0] = [1, 1, 1, 0]"
    by (simp add: numeral_eq_Suc)
  from a b c d show ?thesis by blast
qed

section \<open>The session: what a plot call does\<close>

lemma with_ctrl_Live: "plot_ctrl w = Live c \<Longrightarrow> with_ctrl w f = f c"
  by (simp add: with_ctrl_def)

lemma gnuplot_cmd_Live:
  "plot_ctrl w = Live c \<Longrightarrow>
   gnuplot_cmd cmd w = Inr (w\<lparr>engine_in := engine_in w @ [cmd @ newline]\<rparr>)"
  by (simp add: gnuplot_cmd_def with_ctrl_Live)

lemma gnuplot_setstyle_Live:
  "plot_ctrl w = Live c \<Longrightarrow>
   gnuplot_setstyle s w
     = Inr (w\<lparr>plot_ctrl := Live (c\<lparr>pstyle := (if s \<in> set spec_styles then s else ''points'')\<rparr>)\<rparr>)"
  by (simp add: gnuplot_setstyle_def with_ctrl_Live spec_styles_def)

lemma plot_file_cmd_verb:
  "\<exists>rest. plot_file_cmd c name title @ newline = plot_verb c @ '' '' @ rest"
  by (cases title) (simp_all add: plot_file_cmd_def)

lemma plot_verb_cong: "nplots c' = nplots c \<Longrightarrow> plot_verb c' = plot_verb c"
  by (simp add: plot_verb_def)

lemma plot_x_outcome:
  assumes "plot_ctrl w = Live c" and "gnuplot_plot_x e d n title sfx w = Inr w'"
  shows "plot_abandoned c w w' \<or> plot_sent c w w'"
proof -
  have ab: "plot_abandoned c w w" using assms(1) by (simp add: plot_abandoned_def)
  show ?thesis
  proof (cases "\<exists>ds name out. d = Some ds \<and> \<not> n < 1 \<and> ntmp c \<noteq> GP_MAX_TMP_FILES e - 1
      \<and> mkstemp e sfx w = Some name \<and> write_x e ds (nat n) 0 [] = Inr out
      \<and> \<not> (ntmp c < 0 \<or> GP_MAX_TMP_FILES e \<le> ntmp c)")
    case True
    then obtain ds name out where h: "d = Some ds" "\<not> n < 1" "ntmp c \<noteq> GP_MAX_TMP_FILES e - 1"
      "mkstemp e sfx w = Some name" "write_x e ds (nat n) 0 [] = Inr out"
      "\<not> (ntmp c < 0 \<or> GP_MAX_TMP_FILES e \<le> ntmp c)" by blast
    define c1 where "c1 = c\<lparr>to_delete := (to_delete c)(nat (ntmp c) := name), ntmp := ntmp c + 1\<rparr>"
    obtain rest where r: "plot_file_cmd c1 name title @ newline = plot_verb c1 @ '' '' @ rest"
      using plot_file_cmd_verb by blast
    have v: "plot_verb c1 = plot_verb c" by (simp add: c1_def plot_verb_def)
    have "w' = w\<lparr>files := (files w)(name \<mapsto> out),
                 plot_ctrl := Live (c1\<lparr>nplots := nplots c1 + 1\<rparr>),
                 engine_in := engine_in w @ [plot_file_cmd c1 name title @ newline]\<rparr>"
      using assms h
      by (auto simp: gnuplot_plot_x_def with_ctrl_Live gnuplot_cmd_Live Let_def c1_def)
    then have "plot_sent c w w'"
      unfolding plot_sent_def using r v by (auto simp: c1_def)
    then show ?thesis ..
  next
    case False
    then have "w' = w"
      using assms
      by (auto simp: gnuplot_plot_x_def with_ctrl_Live Let_def
          split: option.splits sum.splits if_splits)
    with ab show ?thesis by simp
  qed
qed


lemma plot_xy_outcome:
  assumes "plot_ctrl w = Live c" and "gnuplot_plot_xy e x y n title sfx wr w = Inr w'"
  shows "plot_abandoned c w w' \<or> plot_sent c w w'"
proof -
  have ab: "plot_abandoned c w w" using assms(1) by (simp add: plot_abandoned_def)
  show ?thesis
  proof (cases "\<exists>xs ys name written out. x = Some xs \<and> y = Some ys \<and> \<not> n < 1
      \<and> ntmp c \<noteq> GP_MAX_TMP_FILES e - 1
      \<and> mkstemp e sfx w = Some name \<and> write_xy e wr xs ys (nat n) 0 [] = Inr (written, out)
      \<and> \<not> (ntmp c < 0 \<or> GP_MAX_TMP_FILES e \<le> ntmp c)")
    case True
    then obtain xs ys name written out where h: "x = Some xs" "y = Some ys" "\<not> n < 1"
      "ntmp c \<noteq> GP_MAX_TMP_FILES e - 1"
      "mkstemp e sfx w = Some name" "write_xy e wr xs ys (nat n) 0 [] = Inr (written, out)"
      "\<not> (ntmp c < 0 \<or> GP_MAX_TMP_FILES e \<le> ntmp c)" by blast
    define c1 where "c1 = c\<lparr>to_delete := (to_delete c)(nat (ntmp c) := name), ntmp := ntmp c + 1\<rparr>"
    obtain rest where r: "plot_file_cmd c1 name title @ newline = plot_verb c1 @ '' '' @ rest"
      using plot_file_cmd_verb by blast
    have v: "plot_verb c1 = plot_verb c" by (simp add: c1_def plot_verb_def)
    show ?thesis
    proof (cases written)
      case True
      have "w' = w\<lparr>files := (files w)(name \<mapsto> out),
                 plot_ctrl := Live (c1\<lparr>nplots := nplots c1 + 1\<rparr>),
                 engine_in := engine_in w @ [plot_file_cmd c1 name title @ newline]\<rparr>"
        using assms h True
        by (auto simp: gnuplot_plot_xy_def with_ctrl_Live gnuplot_cmd_Live Let_def c1_def)
      then have "plot_sent c w w'"
        unfolding plot_sent_def using r v by (auto simp: c1_def)
      then show ?thesis ..
    next
      case False
      have "w' = w\<lparr>files := (files w)(name \<mapsto> out), plot_ctrl := Live c1\<rparr>"
        using assms h False
        by (auto simp: gnuplot_plot_xy_def with_ctrl_Live Let_def c1_def)
      then have "plot_abandoned c w w'"
        by (simp add: plot_abandoned_def c1_def)
      then show ?thesis ..
    qed
  next
    case False
    then have "w' = w"
      using assms
      by (auto simp: gnuplot_plot_xy_def with_ctrl_Live Let_def
          split: option.splits sum.splits if_splits prod.splits)
    with ab show ?thesis by simp
  qed
qed

lemma plot_slope_outcome:
  assumes "plot_ctrl w = Live c" and "gnuplot_plot_slope e a b title w = Inr w'"
  shows "plot_sent c w w'"
proof -
  obtain t where t: "title = Some t"
    using assms by (cases title) (simp_all add: gnuplot_plot_slope_def with_ctrl_Live)
  show ?thesis
    using assms unfolding t
    by (auto simp: gnuplot_plot_slope_def with_ctrl_Live gnuplot_cmd_Live Let_def plot_sent_def
        plot_verb_def)
qed

lemma plot_equation_outcome:
  assumes "plot_ctrl w = Live c" and "gnuplot_plot_equation eq title w = Inr w'"
  shows "plot_sent c w w'"
  using assms
  by (auto simp: gnuplot_plot_equation_def with_ctrl_Live gnuplot_cmd_Live Let_def plot_sent_def
      plot_verb_def)

lemma plot_histogram_outcome:
  assumes "plot_ctrl w = Live c"
    and "gnuplot_plot_histogram e ordinate rawdata overflow title sfx wr w = Inr w'"
  shows "plot_abandoned c w w' \<or> plot_sent c w w'"
proof (cases rawdata)
  case None
  with assms show ?thesis by (simp add: gnuplot_plot_histogram_def plot_abandoned_def)
next
  case (Some rd)
  define c1 where "c1 = c\<lparr>pstyle := (if ''boxes'' \<in> set spec_styles then ''boxes'' else ''points'')\<rparr>"
  define w1 where "w1 = w\<lparr>plot_ctrl := Live c1\<rparr>"
  have s: "gnuplot_setstyle ''boxes'' w = Inr w1"
    using assms(1) by (simp add: gnuplot_setstyle_Live w1_def c1_def)
  obtain bin where b: "histogram_bins overflow ordinate rd = Inr bin"
    using assms(2) Some by (cases "histogram_bins overflow ordinate rd")
      (simp_all add: gnuplot_plot_histogram_def)
  have xy: "gnuplot_plot_xy e (Some ordinate) (Some bin) (int (length ordinate)) title sfx wr w1 = Inr w'"
    using assms(2) Some b s by (simp add: gnuplot_plot_histogram_def)
  have l: "plot_ctrl w1 = Live c1" by (simp add: w1_def)
  have "plot_abandoned c1 w1 w' \<or> plot_sent c1 w1 w'"
    by (rule plot_xy_outcome [OF l xy])
  moreover have "nplots c1 = nplots c" "engine_in w1 = engine_in w" "plot_verb c1 = plot_verb c"
    by (simp_all add: c1_def w1_def plot_verb_def)
  ultimately show ?thesis by (simp add: plot_abandoned_def plot_sent_def)
qed

lemma plot_outcome:
  assumes "plot_ctrl w = Live c" and "is_plot k" and "step e k w = Inr w'"
  shows "plot_abandoned c w w' \<or> plot_sent c w w'"
proof (cases k)
  case (PlotX d n title sfx)
  with assms show ?thesis by (simp add: plot_x_outcome)
next
  case (PlotXY x y n title sfx wr)
  with assms show ?thesis by (simp add: plot_xy_outcome)
next
  case (PlotSlope a b title)
  with assms show ?thesis by (simp add: plot_slope_outcome)
next
  case (PlotEquation eq title)
  with assms show ?thesis by (simp add: plot_equation_outcome)
next
  case (PlotHistogram ordinate rawdata overflow title sfx wr)
  with assms show ?thesis by (simp add: plot_histogram_outcome)
qed (use assms in simp_all)


section \<open>The session: invariants of the reachable sessions\<close>

lemma gnuplot_resetplot_Live:
  "plot_ctrl w = Live c \<Longrightarrow>
   gnuplot_resetplot w
     = Inr (w\<lparr>files := remove_files (registry c) (files w),
              plot_ctrl := Live (c\<lparr>ntmp := 0, nplots := 0\<rparr>)\<rparr>)"
  by (simp add: gnuplot_resetplot_def with_ctrl_Live)

lemma inv_init:
  assumes "step e (Init junk popen_ok) w = Inr w'"
  shows "session_inv e w'"
  using assms
  by (auto simp: gnuplot_init_def session_inv_def Let_def split: prod.splits if_splits)

lemma inv_close:
  assumes "session_inv e w" and "gnuplot_close pclose_ok w = Inr w'"
  shows "session_inv e w'"
  using assms
  by (auto simp: gnuplot_close_def with_ctrl_def session_inv_def split: handle.splits if_splits)

lemma inv_cmd:
  assumes "session_inv e w" and "gnuplot_cmd cmd w = Inr w'"
  shows "session_inv e w'"
  using assms
  by (auto simp: gnuplot_cmd_def with_ctrl_def session_inv_def split: handle.splits)

lemma inv_setstyle:
  assumes "session_inv e w" and "gnuplot_setstyle s w = Inr w'"
  shows "session_inv e w'"
proof (cases "plot_ctrl w")
  case (Live c)
  with assms show ?thesis
    by (auto simp: gnuplot_setstyle_Live session_inv_def)
qed (use assms in \<open>simp_all add: gnuplot_setstyle_def with_ctrl_def\<close>)

lemma inv_resetplot:
  assumes "gnuplot_resetplot w = Inr w'"
  shows "session_inv e w'"
  using assms
  by (auto simp: gnuplot_resetplot_def with_ctrl_def session_inv_def split: handle.splits)

lemma inv_plot_x:
  assumes "session_inv e w" and "gnuplot_plot_x e d n title sfx w = Inr w'"
  shows "session_inv e w'"
proof (cases "plot_ctrl w")
  case Null
  with assms show ?thesis by (simp add: gnuplot_plot_x_def)
next
  case Freed
  with assms have "w' = w"
    by (auto simp: gnuplot_plot_x_def with_ctrl_def split: option.splits if_splits)
  with assms show ?thesis by simp
next
  case (Live c)
  show ?thesis
  proof (cases "w' = w")
    case True
    with assms show ?thesis by simp
  next
    case False
    then obtain ds name out where w': "ntmp c \<noteq> GP_MAX_TMP_FILES e - 1"
      "\<not> (ntmp c < 0 \<or> GP_MAX_TMP_FILES e \<le> ntmp c)"
      "w' = w\<lparr>files := (files w)(name \<mapsto> out),
              engine_in := engine_in w @ [plot_file_cmd
                 (c\<lparr>to_delete := (to_delete c)(nat (ntmp c) := name), ntmp := ntmp c + 1\<rparr>)
                 name title @ newline],
              plot_ctrl := Live (c\<lparr>to_delete := (to_delete c)(nat (ntmp c) := name),
                 ntmp := ntmp c + 1, nplots := nplots c + 1\<rparr>)\<rparr>"
      using assms(2) Live
      by (auto simp: gnuplot_plot_x_def with_ctrl_Live gnuplot_cmd_Live Let_def
          split: option.splits sum.splits if_splits)
    with assms(1) Live show ?thesis by (auto simp: session_inv_def)
  qed
qed

lemma inv_plot_xy:
  assumes "session_inv e w" and "gnuplot_plot_xy e x y n title sfx wr w = Inr w'"
  shows "session_inv e w'"
proof (cases "plot_ctrl w")
  case Null
  with assms show ?thesis by (simp add: gnuplot_plot_xy_def)
next
  case Freed
  with assms have "w' = w"
    by (auto simp: gnuplot_plot_xy_def with_ctrl_def split: option.splits if_splits)
  with assms show ?thesis by simp
next
  case (Live c)
  show ?thesis
  proof (cases "w' = w")
    case True
    with assms show ?thesis by simp
  next
    case False
    then obtain c' where w': "ntmp c \<noteq> GP_MAX_TMP_FILES e - 1"
      "\<not> (ntmp c < 0 \<or> GP_MAX_TMP_FILES e \<le> ntmp c)"
      "plot_ctrl w' = Live c'" "ntmp c' = ntmp c + 1"
      "nplots c' = nplots c \<or> nplots c' = nplots c + 1"
      using assms(2) Live
      by (auto simp: gnuplot_plot_xy_def with_ctrl_Live gnuplot_cmd_Live Let_def
          split: option.splits sum.splits if_splits prod.splits)
    with assms(1) Live show ?thesis by (auto simp: session_inv_def)
  qed
qed

lemma inv_plot_slope:
  assumes "session_inv e w" and "gnuplot_plot_slope e a b title w = Inr w'"
  shows "session_inv e w'"
  using assms
  by (auto simp: gnuplot_plot_slope_def with_ctrl_def gnuplot_cmd_def session_inv_def Let_def
      split: handle.splits option.splits)

lemma inv_plot_equation:
  assumes "session_inv e w" and "gnuplot_plot_equation eq title w = Inr w'"
  shows "session_inv e w'"
  using assms
  by (auto simp: gnuplot_plot_equation_def with_ctrl_def gnuplot_cmd_def session_inv_def Let_def
      split: handle.splits)

lemma inv_plot_histogram:
  assumes "session_inv e w"
    and "gnuplot_plot_histogram e ordinate rawdata overflow title sfx wr w = Inr w'"
  shows "session_inv e w'"
proof (cases rawdata)
  case None
  with assms show ?thesis by (simp add: gnuplot_plot_histogram_def)
next
  case (Some rd)
  with assms(2) obtain bin w1 where "gnuplot_setstyle ''boxes'' w = Inr w1"
    and "gnuplot_plot_xy e (Some ordinate) (Some bin) (int (length ordinate)) title sfx wr w1 = Inr w'"
    by (auto simp: gnuplot_plot_histogram_def split: sum.splits)
  with assms(1) show ?thesis
    by (blast intro: inv_setstyle inv_plot_xy)
qed

lemma step_inv:
  assumes "session_inv e w" and "step e k w = Inr w'"
  shows "session_inv e w'"
proof (cases k)
  case (Init junk popen_ok)
  with assms show ?thesis by (blast intro: inv_init)
next
  case (Close pclose_ok)
  with assms show ?thesis by (auto intro: inv_close)
next
  case (Cmd cmd)
  with assms show ?thesis by (auto intro: inv_cmd)
next
  case (SetStyle s)
  with assms show ?thesis by (auto intro: inv_setstyle)
next
  case (SetTitle t)
  with assms show ?thesis by (auto simp: gnuplot_set_title_def intro: inv_cmd)
next
  case (SetXLabel l)
  with assms show ?thesis by (auto simp: gnuplot_set_xlabel_def intro: inv_cmd)
next
  case (SetYLabel l)
  with assms show ?thesis by (auto simp: gnuplot_set_ylabel_def intro: inv_cmd)
next
  case ResetPlot
  with assms show ?thesis by (auto intro: inv_resetplot)
next
  case (PlotX d n title sfx)
  with assms show ?thesis by (auto intro: inv_plot_x)
next
  case (PlotXY x y n title sfx wr)
  with assms show ?thesis by (auto intro: inv_plot_xy)
next
  case (PlotSlope a b title)
  with assms show ?thesis by (auto intro: inv_plot_slope)
next
  case (PlotEquation eq title)
  with assms show ?thesis by (auto intro: inv_plot_equation)
next
  case (PlotHistogram ordinate rawdata overflow title sfx wr)
  with assms show ?thesis by (auto intro: inv_plot_histogram)
qed

lemma reachable_inv:
  assumes "reachable e w"
  shows "session_inv e w"
  using assms
proof (induction rule: reachable.induct)
  case start
  show ?case by (simp add: session_inv_def world0_def)
next
  case (after w c w')
  then show ?case by (blast intro: step_inv)
qed


section \<open>The sample session can be reached\<close>

lemma locate_gnuplot_env0:
  "gnuplot_get_program_path env0 buf ''gnuplot'' = (BufPtr, ''/usr/bin'')"
  by (simp add: gnuplot_get_program_path_def scan_path.simps env0_def truncate_name_def)

lemma reachable_session0: "reachable env0 session0"
proof -
  have 1: "step env0 (Init ctrl0 True) world0
      = Inr (world0\<lparr>path_buf := ''/usr/bin'', plot_ctrl := Live ctrl0\<rparr>)"
    by (simp add: gnuplot_init_def locate_gnuplot_env0 world0_def ctrl0_def)
  have 2: "step env0 (SetStyle ''points'') (world0\<lparr>path_buf := ''/usr/bin'', plot_ctrl := Live ctrl0\<rparr>)
      = Inr session0"
    by (simp add: gnuplot_setstyle_def with_ctrl_def world0_def ctrl0_def session0_def)
  show ?thesis
    by (rule reachable.after [OF reachable.after [OF reachable.start 1] 2])
qed

lemma plot_x_session0:
  "gnuplot_plot_x env0 (Some [1]) 1 None (Some ''aaaaaa'') session0 = Inr session1"
  by (simp add: gnuplot_plot_x_def with_ctrl_def session0_def ctrl0_def session1_def ctrl1_def
       env0_def mkstemp_def write_x.simps gnuplot_cmd_def plot_file_cmd_def plot_verb_def fun_eq_iff)

lemma reachable_session1: "reachable env0 session1"
proof -
  have "step env0 (PlotX (Some [1]) 1 None (Some ''aaaaaa'')) session0 = Inr session1"
    by (simp add: plot_x_session0)
  with reachable_session0 show ?thesis by (rule reachable.after)
qed

section \<open>The registry and the overlay counter\<close>

lemma plot_histogram_at_capacity:
  assumes "plot_ctrl w = Live c" and "ntmp c = GP_MAX_TMP_FILES e - 1"
    and "gnuplot_plot_histogram e ordinate rawdata overflow title sfx wr w = Inr w'"
  shows "w' = w \<or> w' = w\<lparr>plot_ctrl := Live (c\<lparr>pstyle := ''boxes''\<rparr>)\<rparr>"
proof (cases rawdata)
  case None
  with assms(3) show ?thesis by (simp add: gnuplot_plot_histogram_def)
next
  case (Some rd)
  define w1 where "w1 = w\<lparr>plot_ctrl := Live (c\<lparr>pstyle := ''boxes''\<rparr>)\<rparr>"
  have s: "gnuplot_setstyle ''boxes'' w = Inr w1"
    using assms(1) by (simp add: gnuplot_setstyle_Live spec_styles_def w1_def)
  obtain bin where b: "histogram_bins overflow ordinate rd = Inr bin"
    using assms(3) Some by (cases "histogram_bins overflow ordinate rd")
      (simp_all add: gnuplot_plot_histogram_def)
  have l: "plot_ctrl w1 = Live (c\<lparr>pstyle := ''boxes''\<rparr>)" by (simp add: w1_def)
  have "gnuplot_plot_xy e (Some ordinate) (Some bin) (int (length ordinate)) title sfx wr w1 = Inr w1"
    using assms(2) by (simp add: gnuplot_plot_xy_def with_ctrl_Live [OF l] l)
  with assms(3) Some b s have "w' = w1" by (simp add: gnuplot_plot_histogram_def)
  then show ?thesis by (simp add: w1_def)
qed

text \<open>
  C3: in every reachable session the registry holds fewer than \<^verbatim>\<open>GP_MAX_TMP_FILES\<close>
  names (the constant, whose definition is in the missing header, is taken to be at least
  1); and when the registry holds \<^verbatim>\<open>GP_MAX_TMP_FILES - 1\<close> names,
  \<^verbatim>\<open>gnuplot_plot_x\<close> and \<^verbatim>\<open>gnuplot_plot_xy\<close> return at once: no file is
  created, and the registry, the counter, the style and the text sent to the engine are
  what they were. A histogram call in that state creates no file either; it changes
  nothing but the style, which it sets to boxes before it hands the counters to
  \<^verbatim>\<open>gnuplot_plot_xy\<close>.
\<close>

theorem registry_bounded:
  assumes "1 \<le> GP_MAX_TMP_FILES e" and "reachable e w" and "plot_ctrl w = Live c"
  shows "int (length (registry c)) < GP_MAX_TMP_FILES e
    \<and> int (length (registry c)) = ntmp c
    \<and> (ntmp c = GP_MAX_TMP_FILES e - 1 \<longrightarrow>
         gnuplot_plot_x e d n title sfx w = Inr w
         \<and> gnuplot_plot_xy e x y n title sfx wr w = Inr w
         \<and> (gnuplot_plot_histogram e ordinate rawdata overflow title sfx wr w = Inr w' \<longrightarrow>
               w' = w \<or> w' = w\<lparr>plot_ctrl := Live (c\<lparr>pstyle := ''boxes''\<rparr>)\<rparr>))"
proof -
  have "session_inv e w" using assms(2) by (rule reachable_inv)
  with assms(1,3) have b: "0 \<le> ntmp c" "ntmp c < GP_MAX_TMP_FILES e"
    by (simp_all add: session_inv_def)
  then have l: "int (length (registry c)) = ntmp c" by (simp add: registry_def)
  have px: "gnuplot_plot_x e d n title sfx w = Inr w" if "ntmp c = GP_MAX_TMP_FILES e - 1"
    using that assms(3)
    by (simp add: gnuplot_plot_x_def with_ctrl_Live split: option.splits)
  have pxy: "gnuplot_plot_xy e x y n title sfx wr w = Inr w" if "ntmp c = GP_MAX_TMP_FILES e - 1"
    using that assms(3)
    by (simp add: gnuplot_plot_xy_def with_ctrl_Live split: option.splits)
  have ph: "w' = w \<or> w' = w\<lparr>plot_ctrl := Live (c\<lparr>pstyle := ''boxes''\<rparr>)\<rparr>"
    if "ntmp c = GP_MAX_TMP_FILES e - 1"
      "gnuplot_plot_histogram e ordinate rawdata overflow title sfx wr w = Inr w'"
    using assms(3) that by (rule plot_histogram_at_capacity)
  from b l have "int (length (registry c)) < GP_MAX_TMP_FILES e" by simp
  with l px pxy ph show ?thesis by blast
qed

theorem registry_bounded_witness:
  "reachable env0 session1
   \<and> int (length (registry ctrl1)) = 1 \<and> GP_MAX_TMP_FILES env0 = 2
   \<and> gnuplot_plot_x env0 (Some [1, 0]) 2 None (Some ''bbbbbb'') session1 = Inr session1
   \<and> gnuplot_plot_xy env0 (Some [1, 0]) (Some [0, 1]) 2 None (Some ''bbbbbb'') (\<lambda>i. True) session1
       = Inr session1"
proof -
  have m: "1 \<le> GP_MAX_TMP_FILES env0" "GP_MAX_TMP_FILES env0 = 2" by (simp_all add: env0_def)
  have l: "plot_ctrl session1 = Live ctrl1" by (simp add: session1_def)
  have n: "ntmp ctrl1 = GP_MAX_TMP_FILES env0 - 1" by (simp add: ctrl1_def env0_def)
  note t = registry_bounded [OF m(1) reachable_session1 l,
      of "Some [1, 0]" 2 None "Some ''bbbbbb''" "Some [1, 0]" "Some [0, 1]" "\<lambda>i. True"]
  from t n have "int (length (registry ctrl1)) = ntmp ctrl1"
    and "gnuplot_plot_x env0 (Some [1, 0]) 2 None (Some ''bbbbbb'') session1 = Inr session1"
    and "gnuplot_plot_xy env0 (Some [1, 0]) (Some [0, 1]) 2 None (Some ''bbbbbb'') (\<lambda>i. True) session1
       = Inr session1"
    by blast+
  with reachable_session1 m(2) n show ?thesis by simp
qed

text \<open>
  C4: in every reachable session the counter \<^verbatim>\<open>nplots\<close> is zero exactly when the
  verb of the next plot command is \<^verbatim>\<open>plot\<close>, and not zero exactly when it is
  \<^verbatim>\<open>replot\<close>. A plot call that returns either wrote nothing to the engine and left
  the counter, or completed: it wrote one command, which starts with that verb, and the
  counter is one more. \<^verbatim>\<open>gnuplot_resetplot\<close> sets the counter to zero and empties
  the registry, so a plot call that completes right after it writes a command that starts
  with \<^verbatim>\<open>plot\<close>.
\<close>

theorem overlay_counter:
  assumes "reachable e w" and "plot_ctrl w = Live c"
  shows "(nplots c = 0 \<longleftrightarrow> plot_verb c = ''plot'')
    \<and> (nplots c \<noteq> 0 \<longleftrightarrow> plot_verb c = ''replot'')
    \<and> (is_plot k \<and> step e k w = Inr w' \<longrightarrow> plot_abandoned c w w' \<or> plot_sent c w w')
    \<and> (\<exists>wr cr. gnuplot_resetplot w = Inr wr \<and> plot_ctrl wr = Live cr
          \<and> nplots cr = 0 \<and> ntmp cr = 0 \<and> registry cr = []
          \<and> (is_plot k2 \<and> step e k2 wr = Inr w2 \<and> engine_in w2 \<noteq> engine_in wr \<longrightarrow>
               (\<exists>rest. engine_in w2 = engine_in wr @ [''plot '' @ rest])))"
proof -
  have "session_inv e w" using assms(1) by (rule reachable_inv)
  with assms(2) have n: "0 \<le> nplots c" by (simp add: session_inv_def)
  then have v: "nplots c = 0 \<longleftrightarrow> plot_verb c = ''plot''"
    "nplots c \<noteq> 0 \<longleftrightarrow> plot_verb c = ''replot''"
    by (auto simp: plot_verb_def)
  have p: "plot_abandoned c w w' \<or> plot_sent c w w'" if "is_plot k" "step e k w = Inr w'"
    using assms(2) that by (rule plot_outcome)
  define cr where "cr = c\<lparr>ntmp := 0, nplots := 0\<rparr>"
  define wr where "wr = w\<lparr>files := remove_files (registry c) (files w), plot_ctrl := Live cr\<rparr>"
  have r: "gnuplot_resetplot w = Inr wr" "plot_ctrl wr = Live cr" "nplots cr = 0" "ntmp cr = 0"
    "registry cr = []" "plot_verb cr = ''plot''"
    using assms(2) by (simp_all add: gnuplot_resetplot_Live wr_def cr_def registry_def plot_verb_def)
  have q: "\<exists>rest. engine_in w2 = engine_in wr @ [''plot '' @ rest]"
    if h: "is_plot k2" "step e k2 wr = Inr w2" "engine_in w2 \<noteq> engine_in wr"
  proof -
    have "plot_abandoned cr wr w2 \<or> plot_sent cr wr w2"
      using r(2) h(1,2) by (rule plot_outcome)
    with h(3) have "plot_sent cr wr w2" by (auto simp: plot_abandoned_def)
    then show ?thesis using r(6) by (auto simp: plot_sent_def)
  qed
  from v p r q show ?thesis by blast
qed

theorem overlay_counter_witness:
  "plot_verb ctrl0 = ''plot'' \<and> nplots ctrl0 = 0
   \<and> step env0 (PlotX (Some [1]) 1 None (Some ''aaaaaa'')) session0 = Inr session1
   \<and> plot_sent ctrl0 session0 session1 \<and> nplots ctrl1 = 1 \<and> plot_verb ctrl1 = ''replot''
   \<and> (\<exists>rest. engine_in (projr (step env0 (PlotEquation ''x'' None) (projr (gnuplot_resetplot session1))))
         = engine_in (projr (gnuplot_resetplot session1)) @ [''plot '' @ rest])"
proof -
  have l: "plot_ctrl session0 = Live ctrl0" by (simp add: session0_def)
  have s: "step env0 (PlotX (Some [1]) 1 None (Some ''aaaaaa'')) session0 = Inr session1"
    by (simp add: plot_x_session0)
  have k: "is_plot (PlotX (Some [1]) 1 None (Some ''aaaaaa''))" by simp
  have z: "nplots ctrl0 = 0" "nplots ctrl1 = 1" by (simp_all add: ctrl0_def ctrl1_def)
  have ne: "engine_in session1 \<noteq> engine_in session0" by (simp add: session0_def session1_def)
  note t = overlay_counter [OF reachable_session0 l, of "PlotX (Some [1]) 1 None (Some ''aaaaaa'')" session1]
  from t z(1) have v0: "plot_verb ctrl0 = ''plot''" by blast
  from t k s have "plot_abandoned ctrl0 session0 session1 \<or> plot_sent ctrl0 session0 session1"
    by blast
  with ne have ps: "plot_sent ctrl0 session0 session1" by (auto simp: plot_abandoned_def)
  have l1: "plot_ctrl session1 = Live ctrl1" by (simp add: session1_def)
  define wr where "wr = projr (gnuplot_resetplot session1)"
  define w2 where "w2 = projr (step env0 (PlotEquation ''x'' None) wr)"
  have r: "gnuplot_resetplot session1 = Inr wr"
    by (simp add: wr_def gnuplot_resetplot_Live [OF l1])
  have lr: "plot_ctrl wr = Live (ctrl1\<lparr>ntmp := 0, nplots := 0\<rparr>)"
    by (simp add: wr_def gnuplot_resetplot_Live [OF l1])
  have s2: "step env0 (PlotEquation ''x'' None) wr = Inr w2"
    using lr by (simp add: w2_def gnuplot_plot_equation_def with_ctrl_Live gnuplot_cmd_Live Let_def)
  have ne2: "engine_in w2 \<noteq> engine_in wr"
    using lr by (simp add: w2_def gnuplot_plot_equation_def with_ctrl_Live gnuplot_cmd_Live Let_def)
  note t1 = overlay_counter [OF reachable_session1 l1, of _ _ "PlotEquation ''x'' None" w2]
  from t1 z(2) have v1: "plot_verb ctrl1 = ''replot''" by simp
  from t1 r s2 ne2 have "\<exists>rest. engine_in w2 = engine_in wr @ [''plot '' @ rest]"
    by auto
  then have after_reset: "\<exists>rest.
      engine_in (projr (step env0 (PlotEquation ''x'' None) (projr (gnuplot_resetplot session1))))
         = engine_in (projr (gnuplot_resetplot session1)) @ [''plot '' @ rest]"
    by (simp add: w2_def wr_def)
  from v0 z s ps v1 after_reset show ?thesis by simp
qed

section \<open>The series-by-index plot\<close>

lemma write_x_all:
  "n \<le> length d \<Longrightarrow> i \<le> n \<Longrightarrow>
   write_x e d n i out = Inr (out @ map (\<lambda>x. fmt_g e x @ newline) (drop i (take n d)))"
proof (induction e d n i out rule: write_x.induct)
  case (1 e d n i out)
  show ?case
  proof (cases "i < n")
    case True
    then have il: "i < length d" using 1(2) by simp
    have dr: "drop i (take n d) = d ! i # drop (i + 1) (take n d)"
      using True il by (simp add: Cons_nth_drop_Suc [symmetric])
    have "write_x e d n (i + 1) (out @ [fmt_g e (d ! i) @ newline])
        = Inr ((out @ [fmt_g e (d ! i) @ newline])
               @ map (\<lambda>x. fmt_g e x @ newline) (drop (i + 1) (take n d)))"
      using True il 1(2) by (intro 1(1)) simp_all
    with True il dr show ?thesis by (subst write_x.simps) simp
  next
    case False
    with 1(3) have "i = n" by simp
    then show ?thesis by (subst write_x.simps) simp
  qed
qed

lemma registry_push:
  assumes "0 \<le> ntmp c"
  shows "registry (c\<lparr>to_delete := (to_delete c)(nat (ntmp c) := name), ntmp := ntmp c + 1,
                     nplots := m\<rparr>) = registry c @ [name]"
proof -
  have "nat (ntmp c + 1) = Suc (nat (ntmp c))" using assms by simp
  then show ?thesis by (simp add: registry_def)
qed

text \<open>
  C8: on a live session, for an array of \<^verbatim>\<open>n \<ge> 1\<close> samples, with the registry
  below its capacity and \<^verbatim>\<open>mkstemp\<close> succeeding with the name of a file that did not
  exist, \<^verbatim>\<open>gnuplot_plot_x\<close> creates that one file and gives it \<^verbatim>\<open>n\<close> lines, one
  formatted sample each; it appends the name to the registry, writes one command naming
  the file to the engine, and adds one to the counter. No other file changes.
\<close>

theorem plot_x_stages_one_file:
  assumes "plot_ctrl w = Live c" and "1 \<le> n" and "int (length d) = n"
    and "0 \<le> ntmp c" and "ntmp c < GP_MAX_TMP_FILES e - 1"
    and "mkstemp e sfx w = Some name"
  shows "files w name = None
    \<and> (\<exists>w' c' rest. gnuplot_plot_x e (Some d) n title sfx w = Inr w' \<and> plot_ctrl w' = Live c'
          \<and> files w' = (files w)(name \<mapsto> map (\<lambda>x. fmt_g e x @ newline) d)
          \<and> int (length (map (\<lambda>x. fmt_g e x @ newline) d)) = n
          \<and> registry c' = registry c @ [name]
          \<and> nplots c' = nplots c + 1
          \<and> pstyle c' = pstyle c
          \<and> engine_in w' = engine_in w @ [plot_verb c @ '' '' @ dquote @ name @ dquote @ rest])"
proof -
  have fresh: "files w name = None"
    using assms(6) by (auto simp: mkstemp_def Let_def split: option.splits if_splits)
  have wx: "write_x e d (nat n) 0 [] = Inr (map (\<lambda>x. fmt_g e x @ newline) d)"
    using assms(2,3) by (subst write_x_all) auto
  define c1 where "c1 = c\<lparr>to_delete := (to_delete c)(nat (ntmp c) := name), ntmp := ntmp c + 1\<rparr>"
  define c' where "c' = c1\<lparr>nplots := nplots c1 + 1\<rparr>"
  define w' where "w' = w\<lparr>files := (files w)(name \<mapsto> map (\<lambda>x. fmt_g e x @ newline) d),
      engine_in := engine_in w @ [plot_file_cmd c1 name title @ newline],
      plot_ctrl := Live c'\<rparr>"
  have run: "gnuplot_plot_x e (Some d) n title sfx w = Inr w'"
    using assms wx
    by (simp add: gnuplot_plot_x_def with_ctrl_Live gnuplot_cmd_Live Let_def w'_def c'_def c1_def)
  have reg: "registry c' = registry c @ [name]"
    unfolding c'_def c1_def using registry_push [OF assms(4)] by simp
  have cmd: "\<exists>rest. plot_file_cmd c1 name title @ newline
      = plot_verb c @ '' '' @ dquote @ name @ dquote @ rest"
    by (cases title) (simp_all add: plot_file_cmd_def plot_verb_def c1_def)
  then obtain rest where rest: "plot_file_cmd c1 name title @ newline
      = plot_verb c @ '' '' @ dquote @ name @ dquote @ rest" ..
  have "plot_ctrl w' = Live c'" "files w' = (files w)(name \<mapsto> map (\<lambda>x. fmt_g e x @ newline) d)"
    "nplots c' = nplots c + 1" "pstyle c' = pstyle c"
    "engine_in w' = engine_in w @ [plot_verb c @ '' '' @ dquote @ name @ dquote @ rest]"
    using rest by (simp_all add: w'_def c'_def c1_def)
  with fresh run reg assms(3) show ?thesis by auto
qed

theorem plot_x_stages_one_file_witness:
  "files session0 ''/tmp/gnuplot-i-aaaaaa'' = None
   \<and> gnuplot_plot_x env0 (Some [1]) 1 None (Some ''aaaaaa'') session0 = Inr session1
   \<and> files session1 ''/tmp/gnuplot-i-aaaaaa'' = Some [''1'' @ newline]
   \<and> registry ctrl1 = registry ctrl0 @ [''/tmp/gnuplot-i-aaaaaa'']
   \<and> nplots ctrl1 = nplots ctrl0 + 1"
proof -
  have l: "plot_ctrl session0 = Live ctrl0" by (simp add: session0_def)
  have n: "(1::int) \<le> 1" "int (length [1::real]) = 1" by simp_all
  have r: "0 \<le> ntmp ctrl0" "ntmp ctrl0 < GP_MAX_TMP_FILES env0 - 1"
    by (simp_all add: ctrl0_def env0_def)
  have m: "mkstemp env0 (Some ''aaaaaa'') session0 = Some ''/tmp/gnuplot-i-aaaaaa''"
    by (simp add: mkstemp_def env0_def session0_def)
  note t = plot_x_stages_one_file [OF l n r m, of None]
  have l1: "plot_ctrl session1 = Live ctrl1" by (simp add: session1_def)
  from t have "files session0 ''/tmp/gnuplot-i-aaaaaa'' = None" by blast
  moreover from t plot_x_session0 l1
  have "registry ctrl1 = registry ctrl0 @ [''/tmp/gnuplot-i-aaaaaa'']"
    and "nplots ctrl1 = nplots ctrl0 + 1"
    and "files session1 = (files session0)(''/tmp/gnuplot-i-aaaaaa''
           \<mapsto> map (\<lambda>x. fmt_g env0 x @ newline) [1])"
    by auto
  ultimately show ?thesis using plot_x_session0 by (simp add: env0_def)
qed

section \<open>The style\<close>

text \<open>
  C5: on a live session \<^verbatim>\<open>gnuplot_setstyle\<close> returns normally and changes nothing
  but the style: to the string it was given when that is one of lines, points,
  linespoints, impulses, dots, steps, histogram, errorbars, boxes, boxerrorbars, and to
  points for every other string. The style it leaves is one of the ten.
\<close>

theorem setstyle_valid:
  assumes "plot_ctrl w = Live c"
  shows "\<exists>style. gnuplot_setstyle s w = Inr (w\<lparr>plot_ctrl := Live (c\<lparr>pstyle := style\<rparr>)\<rparr>)
    \<and> style \<in> set spec_styles
    \<and> (s \<in> set spec_styles \<longrightarrow> style = s)
    \<and> (s \<notin> set spec_styles \<longrightarrow> style = ''points'')"
proof -
  have "gnuplot_setstyle s w = Inr (w\<lparr>plot_ctrl :=
      Live (c\<lparr>pstyle := (if s \<in> set spec_styles then s else ''points'')\<rparr>)\<rparr>)"
    using assms by (rule gnuplot_setstyle_Live)
  moreover have "''points'' \<in> set spec_styles" by (simp add: spec_styles_def)
  ultimately show ?thesis by auto
qed

theorem setstyle_valid_witness:
  "gnuplot_setstyle ''boxes'' session0 = Inr (session0\<lparr>plot_ctrl := Live (ctrl0\<lparr>pstyle := ''boxes''\<rparr>)\<rparr>)
   \<and> gnuplot_setstyle ''bars'' session1 = Inr (session1\<lparr>plot_ctrl := Live (ctrl1\<lparr>pstyle := ''points''\<rparr>)\<rparr>)"
proof -
  have l: "plot_ctrl session0 = Live ctrl0" "plot_ctrl session1 = Live ctrl1"
    by (simp_all add: session0_def session1_def)
  have m: "''boxes'' \<in> set spec_styles" "''bars'' \<notin> set spec_styles"
    by (simp_all add: spec_styles_def)
  from setstyle_valid [OF l(1), of "''boxes''"] m(1)
  have a: "gnuplot_setstyle ''boxes'' session0
      = Inr (session0\<lparr>plot_ctrl := Live (ctrl0\<lparr>pstyle := ''boxes''\<rparr>)\<rparr>)"
    by auto
  from setstyle_valid [OF l(2), of "''bars''"] m(2)
  have b: "gnuplot_setstyle ''bars'' session1
      = Inr (session1\<lparr>plot_ctrl := Live (ctrl1\<lparr>pstyle := ''points''\<rparr>)\<rparr>)"
    by auto
  from a b show ?thesis by simp
qed

section \<open>The histogram call on an empty input\<close>

text \<open>
  C9, as the claim states it, fails: on a session whose style is points, a histogram call
  with no bins and a sample array that is not null leaves the style boxes.
\<close>

theorem histogram_no_bins_counterexample:
  "gnuplot_plot_histogram env0 [] (Some [1]) 0 None None writes_ok session0
     = Inr (session0\<lparr>plot_ctrl := Live (ctrl0\<lparr>pstyle := ''boxes''\<rparr>)\<rparr>)
   \<and> plot_ctrl session0 = Live ctrl0 \<and> pstyle ctrl0 = ''points''
   \<and> gnuplot_plot_histogram env0 [] (Some [1]) 0 None None writes_ok session0 \<noteq> Inr session0"
proof -
  have l: "plot_ctrl session0 = Live ctrl0" by (simp add: session0_def)
  have r: "gnuplot_plot_histogram env0 [] (Some [1]) 0 None None writes_ok session0
     = Inr (session0\<lparr>plot_ctrl := Live (ctrl0\<lparr>pstyle := ''boxes''\<rparr>)\<rparr>)"
    by (simp add: gnuplot_plot_histogram_def histogram_bins_def bin_samples.simps
        gnuplot_setstyle_Live [OF l] spec_styles_def gnuplot_plot_xy_def)
  have "session0\<lparr>plot_ctrl := Live (ctrl0\<lparr>pstyle := ''boxes''\<rparr>)\<rparr> \<noteq> session0"
  proof
    assume "session0\<lparr>plot_ctrl := Live (ctrl0\<lparr>pstyle := ''boxes''\<rparr>)\<rparr> = session0"
    then have "plot_ctrl (session0\<lparr>plot_ctrl := Live (ctrl0\<lparr>pstyle := ''boxes''\<rparr>)\<rparr>)
        = plot_ctrl session0" by simp
    then have "pstyle (ctrl0\<lparr>pstyle := ''boxes''\<rparr>) = pstyle ctrl0" using l by simp
    then show False by (simp add: ctrl0_def)
  qed
  with r l show ?thesis by (simp add: ctrl0_def)
qed

text \<open>
  C9, amended: a histogram call with a null sample pointer returns at once and leaves the
  session and the files as they were, whatever the handle is. On a live session, a
  histogram call with no bins and a sample array that is not null returns normally, sends
  nothing to the engine, creates no file and leaves the counter and the registry, but it
  sets the style to boxes.
\<close>

theorem histogram_no_bins:
  "gnuplot_plot_histogram e ordinate None overflow title sfx wr w = Inr w
   \<and> (plot_ctrl w = Live c \<longrightarrow>
        gnuplot_plot_histogram e [] (Some rd) overflow title sfx wr w
          = Inr (w\<lparr>plot_ctrl := Live (c\<lparr>pstyle := ''boxes''\<rparr>)\<rparr>))"
proof -
  have a: "gnuplot_plot_histogram e ordinate None overflow title sfx wr w = Inr w"
    by (simp add: gnuplot_plot_histogram_def)
  have b: "gnuplot_plot_histogram e [] (Some rd) overflow title sfx wr w
          = Inr (w\<lparr>plot_ctrl := Live (c\<lparr>pstyle := ''boxes''\<rparr>)\<rparr>)"
    if l: "plot_ctrl w = Live c"
    by (simp add: gnuplot_plot_histogram_def histogram_bins_def bin_samples.simps
        gnuplot_setstyle_Live [OF l] spec_styles_def gnuplot_plot_xy_def)
  from a b show ?thesis by blast
qed

theorem histogram_no_bins_witness:
  "gnuplot_plot_histogram env0 [0, 1] None 1 None None writes_ok session1 = Inr session1
   \<and> gnuplot_plot_histogram env0 [] (Some [1, 2]) 1 None None writes_ok session1
       = Inr (session1\<lparr>plot_ctrl := Live (ctrl1\<lparr>pstyle := ''boxes''\<rparr>)\<rparr>)"
proof -
  have l: "plot_ctrl session1 = Live ctrl1" by (simp add: session1_def)
  note t = histogram_no_bins [of env0 "[0, 1]" 1 None None writes_ok session1 ctrl1 "[1, 2]"]
  from t l show ?thesis by blast
qed

section \<open>Closing the session\<close>

lemma remove_files_apply:
  "remove_files names fs name = (if name \<in> set names then None else fs name)"
  by (induction names arbitrary: fs) auto

text \<open>
  C2, as the claim states it, fails: when \<^verbatim>\<open>pclose\<close> reports a failure,
  \<^verbatim>\<open>gnuplot_close\<close> returns before it removes a file or frees the handle. On the
  reachable session with one staged file, the file is still there after the call and the
  handle is still live.
\<close>

theorem close_pipe_failure_counterexample:
  "reachable env0 session1
   \<and> gnuplot_close False session1 = Inr session1
   \<and> plot_ctrl session1 = Live ctrl1
   \<and> registry ctrl1 = [''/tmp/gnuplot-i-aaaaaa'']
   \<and> files session1 ''/tmp/gnuplot-i-aaaaaa'' = Some [''1'' @ newline]"
proof -
  have l: "plot_ctrl session1 = Live ctrl1" by (simp add: session1_def)
  have "gnuplot_close False session1 = Inr session1"
    by (simp add: gnuplot_close_def with_ctrl_Live [OF l])
  moreover have "registry ctrl1 = [''/tmp/gnuplot-i-aaaaaa'']"
    by (simp add: registry_def ctrl1_def)
  moreover have "files session1 ''/tmp/gnuplot-i-aaaaaa'' = Some [''1'' @ newline]"
    by (simp add: session1_def)
  ultimately show ?thesis using reachable_session1 l by simp
qed

text \<open>
  C2, amended: on a live session, when \<^verbatim>\<open>pclose\<close> succeeds \<^verbatim>\<open>gnuplot_close\<close>
  removes every file of the registry, leaves the other files, and frees the handle; when
  \<^verbatim>\<open>pclose\<close> reports a failure it returns at once and leaves the files, the registry
  and the handle as they were.
\<close>

theorem close_reclaims_on_success:
  assumes "plot_ctrl w = Live c"
  shows "gnuplot_close False w = Inr w
    \<and> (\<exists>w'. gnuplot_close True w = Inr w' \<and> plot_ctrl w' = Freed \<and> engine_in w' = engine_in w
          \<and> (\<forall>name. files w' name = (if name \<in> set (registry c) then None else files w name)))"
  using assms by (simp add: gnuplot_close_def with_ctrl_Live remove_files_apply)

theorem close_reclaims_on_success_witness:
  "gnuplot_close False session1 = Inr session1
   \<and> plot_ctrl (projr (gnuplot_close True session1)) = Freed
   \<and> files (projr (gnuplot_close True session1)) ''/tmp/gnuplot-i-aaaaaa'' = None"
proof -
  have l: "plot_ctrl session1 = Live ctrl1" by (simp add: session1_def)
  have r: "''/tmp/gnuplot-i-aaaaaa'' \<in> set (registry ctrl1)"
    by (simp add: registry_def ctrl1_def)
  from close_reclaims_on_success [OF l] r show ?thesis by auto
qed

section \<open>The title of the slope plot\<close>

text \<open>
  C6: the code does not do what the claim says. \<^verbatim>\<open>gnuplot_plot_slope\<close> copies the
  default title into \<^verbatim>\<open>stitle\<close> when \<^verbatim>\<open>title\<close> is null, and then formats the
  null \<^verbatim>\<open>title\<close> itself: no command with the default title is written. The
  equation plot formats its copy, and writes the default title.
\<close>

theorem plot_slope_null_title:
  "gnuplot_plot_slope env0 1 0 None session0 = Inl NullFormatArg
   \<and> map_sum id engine_in (gnuplot_plot_equation ''x'' None session0)
       = Inr [''plot x title '' @ dquote @ ''no title'' @ dquote @ '' with points'' @ newline]"
proof -
  have l: "plot_ctrl session0 = Live ctrl0" by (simp add: session0_def)
  have "gnuplot_plot_slope env0 1 0 None session0 = Inl NullFormatArg"
    by (simp add: gnuplot_plot_slope_def with_ctrl_Live [OF l])
  moreover have "map_sum id engine_in (gnuplot_plot_equation ''x'' None session0)
       = Inr [''plot x title '' @ dquote @ ''no title'' @ dquote @ '' with points'' @ newline]"
    by (simp add: gnuplot_plot_equation_def with_ctrl_Live [OF l] gnuplot_cmd_Live [OF l] Let_def)
       (simp add: session0_def ctrl0_def)
  ultimately show ?thesis by simp
qed

section \<open>The static buffer of the locator\<close>

text \<open>
  C10, as the claim states it, fails: the locator keeps its answer in a static buffer. In
  the sample host a call for gnuplot changes the buffer from the empty string to
  \<^verbatim>\<open>/usr/bin\<close>, and a later call for sh changes what is read through the pointer of
  the first call to \<^verbatim>\<open>/bin\<close>; a later call for a program that is not found empties
  it.
\<close>

theorem locator_static_buffer_counterexample:
  "snd (gnuplot_get_program_path env0 [] ''gnuplot'') = ''/usr/bin''
   \<and> two_calls env0 [] ''gnuplot'' ''sh'' = (Some ''/usr/bin'', Some ''/bin'', Some ''/bin'')
   \<and> two_calls env0 [] ''gnuplot'' ''ls'' = (Some ''/usr/bin'', Some [], None)"
  by (simp add: two_calls_def gnuplot_get_program_path_def scan_path.simps env0_def
      truncate_name_def)

text \<open>
  C10, amended: the answer of the locator depends on the name, the environment and the
  file system only, not on what the static buffer held: two successive calls with the
  same name, environment and file system return the same result, and what is read through
  the pointer of the first is the same before and after the second. The buffer is shared
  by all calls: after a later call, what is read through the pointer an earlier call
  returned is the buffer as the later call left it.
\<close>

theorem locator_static_buffer:
  "gnuplot_get_program_path e buf pname = gnuplot_get_program_path e buf' pname
   \<and> (case two_calls e buf pname pname of
        (first_then, first_now, second_now) \<Rightarrow> first_then = first_now \<and> first_now = second_now)
   \<and> (fst (gnuplot_get_program_path e buf p1) = BufPtr \<longrightarrow>
        fst (snd (two_calls e buf p1 p2))
          = Some (snd (gnuplot_get_program_path e (snd (gnuplot_get_program_path e buf p1)) p2)))"
proof -
  have a: "gnuplot_get_program_path e b pname = gnuplot_get_program_path e b' pname" for b b' pname
    by (simp add: gnuplot_get_program_path_def)
  have b: "case two_calls e buf pname pname of
        (first_then, first_now, second_now) \<Rightarrow> first_then = first_now \<and> first_now = second_now"
  proof -
    obtain r1 b1 where first: "gnuplot_get_program_path e buf pname = (r1, b1)"
      by (cases "gnuplot_get_program_path e buf pname")
    have second: "gnuplot_get_program_path e b1 pname = (r1, b1)"
      using a [of b1 pname buf] first by simp
    show ?thesis by (simp add: two_calls_def first second)
  qed
  have c: "fst (snd (two_calls e buf p1 p2))
          = Some (snd (gnuplot_get_program_path e (snd (gnuplot_get_program_path e buf p1)) p2))"
    if "fst (gnuplot_get_program_path e buf p1) = BufPtr"
  proof -
    define b1 where "b1 = snd (gnuplot_get_program_path e buf p1)"
    have first: "gnuplot_get_program_path e buf p1 = (BufPtr, b1)"
      using that unfolding b1_def by (metis prod.collapse)
    obtain r2 b2 where second: "gnuplot_get_program_path e b1 p2 = (r2, b2)"
      by (cases "gnuplot_get_program_path e b1 p2")
    show ?thesis by (simp add: two_calls_def first second)
  qed
  from a [of buf pname buf'] b c show ?thesis by blast
qed

theorem locator_static_buffer_witness:
  "gnuplot_get_program_path env0 [] ''gnuplot'' = gnuplot_get_program_path env0 ''/bin'' ''gnuplot''
   \<and> two_calls env0 [] ''gnuplot'' ''gnuplot'' = (Some ''/usr/bin'', Some ''/usr/bin'', Some ''/usr/bin'')
   \<and> fst (snd (two_calls env0 [] ''gnuplot'' ''sh'')) = Some ''/bin''"
proof -
  have g: "gnuplot_get_program_path env0 b ''gnuplot'' = (BufPtr, ''/usr/bin'')" for b
    by (rule locate_gnuplot_env0)
  have s: "gnuplot_get_program_path env0 b ''sh'' = (BufPtr, ''/bin'')" for b
    by (simp add: gnuplot_get_program_path_def scan_path.simps env0_def truncate_name_def)
  note t = locator_static_buffer [of env0 "[]" "''gnuplot''" "''/bin''" "''gnuplot''" "''sh''"]
  from t have "gnuplot_get_program_path env0 [] ''gnuplot''
      = gnuplot_get_program_path env0 ''/bin'' ''gnuplot''" by blast
  moreover have "two_calls env0 [] ''gnuplot'' ''gnuplot''
      = (Some ''/usr/bin'', Some ''/usr/bin'', Some ''/usr/bin'')"
    by (simp add: two_calls_def g)
  moreover from t g s have "fst (snd (two_calls env0 [] ''gnuplot'' ''sh'')) = Some ''/bin''"
    by simp
  ultimately show ?thesis by simp
qed

end
